theory Spec2Isabelle
  imports Main "HOL-Library.Word"
begin

section \<open>Token codec (packages/server/src/auth/token-generation.ts)\<close>

text \<open>
  Time is the number of milliseconds since the epoch, the value a JavaScript \<open>Date\<close>
  compares by. A JavaScript string is modelled as a \<open>string\<close>; the character class of the
  format check only holds ASCII letters, digits, \<open>_\<close> and \<open>-\<close>, so a code unit above 255
  would be rejected like any other character outside the class.
\<close>

type_synonym timestamp = int
type_synonym byte = "8 word"

record TokenGenerationConfig =
  entropyBytes :: nat
  encoding :: string
  expectedLength :: nat
  hashAlgorithm :: string
  defaultExpirationMs :: int

definition DEFAULT_TOKEN_CONFIG :: TokenGenerationConfig where
  "DEFAULT_TOKEN_CONFIG =
     \<lparr> entropyBytes = 12,
       encoding = ''base64url'',
       expectedLength = 16,
       hashAlgorithm = ''sha256'',
       defaultExpirationMs = 60 * 60 * 1000 \<rparr>"

subsection \<open>The format check\<close>

text \<open>
  The character class \<open>[A-Za-z0-9_-]\<close> of the regular expression, as the ranges of
  character codes it denotes.
\<close>

definition base64urlClass :: "char \<Rightarrow> bool" where
  "base64urlClass c =
     (let n = (of_char c :: nat) in
        (65 \<le> n \<and> n \<le> 90) \<or> (97 \<le> n \<and> n \<le> 122) \<or> (48 \<le> n \<and> n \<le> 57)
        \<or> n = 95 \<or> n = 45)"

text \<open>
  \<open>/^[A-Za-z0-9_-]+$/.test(token)\<close>: without the \<open>m\<close> flag the anchors are the two ends
  of the input, so the test holds when the input is one or more characters of the class
  and nothing else.
\<close>

definition base64urlPattern_test :: "string \<Rightarrow> bool" where
  "base64urlPattern_test token = (token \<noteq> [] \<and> list_all base64urlClass token)"

definition validateTokenFormat :: "string \<Rightarrow> bool" where
  "validateTokenFormat token =
     (if length token \<noteq> expectedLength DEFAULT_TOKEN_CONFIG then False
      else base64urlPattern_test token)"

text \<open>The URL-safe alphabet written out: the 64 characters a token may hold.\<close>

definition urlSafeAlphabet :: string where
  "urlSafeAlphabet =
     ''ABCDEFGHIJKLMNOPQRSTUVWXYZabcdefghijklmnopqrstuvwxyz0123456789-_''"

subsection \<open>Token generation\<close>

text \<open>
  \<open>Buffer.toString('base64url')\<close> belongs to the Node runtime, not to the repository. It is
  modelled as RFC 4648 section 5 defines the encoding: three bytes are read as a 24-bit
  number and written as four characters of the alphabet, most significant six bits first;
  one or two trailing bytes give two or three characters, and no padding is written.
\<close>

definition sextet :: "nat \<Rightarrow> char" where
  "sextet n = urlSafeAlphabet ! (n mod 64)"

fun toString_base64url :: "byte list \<Rightarrow> string" where
  "toString_base64url (a # b # c # rest) =
     (let n = unat a * 65536 + unat b * 256 + unat c in
        sextet (n div 262144) # sextet (n div 4096) # sextet (n div 64) # sextet n
          # toString_base64url rest)"
| "toString_base64url [a, b] =
     (let n = unat a * 65536 + unat b * 256 in
        [sextet (n div 262144), sextet (n div 4096), sextet (n div 64)])"
| "toString_base64url [a] =
     (let n = unat a * 65536 in [sextet (n div 262144), sextet (n div 4096)])"
| "toString_base64url [] = []"

text \<open>
  The error \<open>generateOneTimeToken\<close> throws when the encoded token has the wrong length; it
  carries the two lengths of its message.
\<close>

datatype generation_error = TokenLengthMismatch nat nat

text \<open>
  \<open>generateOneTimeToken\<close>, with the bytes that \<open>crypto.randomBytes(entropyBytes)\<close> returned
  as its argument.
\<close>

definition generateOneTimeToken :: "byte list \<Rightarrow> generation_error + string" where
  "generateOneTimeToken randomBytes =
     (let token = toString_base64url randomBytes in
        if length token \<noteq> expectedLength DEFAULT_TOKEN_CONFIG
        then Inl (TokenLengthMismatch (length token) (expectedLength DEFAULT_TOKEN_CONFIG))
        else Inr token)"

text \<open>
  \<open>createTokenExpiration\<close>, with the value of \<open>Date.now()\<close> as its first argument;
  \<open>None\<close> is the omitted \<open>timeoutMs\<close>.
\<close>

definition createTokenExpiration :: "timestamp \<Rightarrow> int option \<Rightarrow> timestamp" where
  "createTokenExpiration dateNow timeoutMs =
     (let timeout = (case timeoutMs of None \<Rightarrow> defaultExpirationMs DEFAULT_TOKEN_CONFIG
                                     | Some t \<Rightarrow> t)
      in dateNow + timeout)"

record generated_token =
  token :: string
  hash :: string
  token_userId :: int
  token_expiresAt :: timestamp

text \<open>
  \<open>generateTokenForUser\<close>. SHA-256 (\<open>hashToken\<close>) comes from the Node runtime: the digest
  function is a parameter of every definition that hashes a token.
\<close>

definition generateTokenForUser ::
  "(string \<Rightarrow> string) \<Rightarrow> byte list \<Rightarrow> timestamp \<Rightarrow> int \<Rightarrow> int option
     \<Rightarrow> generation_error + generated_token" where
  "generateTokenForUser hashToken randomBytes dateNow userId expirationMs =
     (case generateOneTimeToken randomBytes of
        Inl e \<Rightarrow> Inl e
      | Inr tok \<Rightarrow>
          Inr \<lparr> token = tok,
                hash = hashToken tok,
                token_userId = userId,
                token_expiresAt = createTokenExpiration dateNow expirationMs \<rparr>)"

section \<open>Token store (packages/server/src/db/schema)\<close>

text \<open>
  The two tables, a row as a record of its columns. A table is the list of its rows; the
  primary key and the other constraints are checked by the insert, as the database does.
  Of the \<open>users\<close> table, whose schema file the token table only refers to, the model keeps
  the column the foreign key points at: the list of user ids.
\<close>

record token_row =
  tokenHash :: string
  userId :: int
  createdAt :: timestamp
  expiresAt :: timestamp
  usedAt :: "timestamp option"
  used :: bool

record session_row =
  sessionId :: string
  session_userId :: int
  session_createdAt :: timestamp
  session_expiresAt :: timestamp
  lastSeenAt :: timestamp

record database =
  users :: "int list"
  oneTimeTokens :: "token_row list"
  sessions :: "session_row list"

text \<open>
  What the driver throws when a statement fails. Every statement below takes a flag
  \<open>fault\<close>: when it is set the statement fails for a reason the tables do not decide (the
  connection is lost, the driver rejects a parameter), throws, and leaves the tables as
  they were.
\<close>

datatype db_error = QueryFailed

text \<open>
  The \<open>WHERE\<close> clause of the consuming update:
  \<open>tokenHash = h AND used = false AND expiresAt > now\<close>.
\<close>

definition consumable :: "string \<Rightarrow> timestamp \<Rightarrow> token_row \<Rightarrow> bool" where
  "consumable h now r = (tokenHash r = h \<and> used r = False \<and> expiresAt r > now)"

text \<open>
  \<open>UPDATE one_time_tokens SET used = true, used_at = now WHERE ... RETURNING ...\<close>:
  one atomic statement. It returns the rows it updated, of which the caller reads
  \<open>userId\<close> and \<open>expiresAt\<close>, and the tables after the update.
\<close>

definition markUsed :: "timestamp \<Rightarrow> token_row \<Rightarrow> token_row" where
  "markUsed now r = r\<lparr>used := True, usedAt := Some now\<rparr>"

definition update_consume ::
  "bool \<Rightarrow> string \<Rightarrow> timestamp \<Rightarrow> database \<Rightarrow> db_error + (token_row list \<times> database)" where
  "update_consume fault h now db =
     (if fault then Inl QueryFailed
      else Inr (map (markUsed now) (filter (consumable h now) (oneTimeTokens db)),
                db\<lparr>oneTimeTokens :=
                     map (\<lambda>r. if consumable h now r then markUsed now r else r)
                         (oneTimeTokens db)\<rparr>))"

text \<open>\<open>SELECT ... FROM one_time_tokens WHERE tokenHash = h LIMIT 1\<close>.\<close>

definition select_by_hash :: "bool \<Rightarrow> string \<Rightarrow> database \<Rightarrow> db_error + token_row list" where
  "select_by_hash fault h db =
     (if fault then Inl QueryFailed
      else Inr (take 1 (filter (\<lambda>r. tokenHash r = h) (oneTimeTokens db))))"

text \<open>
  \<open>INSERT INTO one_time_tokens\<close>. The insert throws when the hash is longer than the
  column (\<open>varchar(64)\<close>), when a row with the hash exists (primary key), or when there is
  no user with the id (foreign key). \<open>createdAt\<close> defaults to the database's clock.
\<close>

definition insert_token ::
  "bool \<Rightarrow> timestamp \<Rightarrow> string \<Rightarrow> int \<Rightarrow> timestamp \<Rightarrow> database \<Rightarrow> db_error + database" where
  "insert_token fault dbNow h uid expires db =
     (if fault \<or> length h > 64 \<or> h \<in> set (map tokenHash (oneTimeTokens db))
         \<or> uid \<notin> set (users db)
      then Inl QueryFailed
      else Inr (db\<lparr>oneTimeTokens := oneTimeTokens db @
                  [\<lparr> tokenHash = h, userId = uid, createdAt = dbNow, expiresAt = expires,
                     usedAt = None, used = False \<rparr>]\<rparr>))"

text \<open>
  \<open>DELETE FROM one_time_tokens WHERE p\<close> and \<open>DELETE FROM sessions WHERE p\<close>, run through
  the \<open>postgres-js\<close> driver as the source does. The driver's result says how many rows the
  statement affected in its \<open>count\<close> property. It has no \<open>rowCount\<close> property: reading
  \<open>result.rowCount\<close> gives \<open>undefined\<close>, which is \<open>None\<close> here.
\<close>

record delete_result =
  count :: nat

definition rowCount :: "delete_result \<Rightarrow> nat option" where
  "rowCount result = None"

definition delete_tokens ::
  "bool \<Rightarrow> (token_row \<Rightarrow> bool) \<Rightarrow> database \<Rightarrow> db_error + (delete_result \<times> database)" where
  "delete_tokens fault p db =
     (if fault then Inl QueryFailed
      else Inr (\<lparr> count = length (filter p (oneTimeTokens db)) \<rparr>,
                db\<lparr>oneTimeTokens := filter (\<lambda>r. \<not> p r) (oneTimeTokens db)\<rparr>))"

definition delete_sessions ::
  "bool \<Rightarrow> (session_row \<Rightarrow> bool) \<Rightarrow> database \<Rightarrow> db_error + (delete_result \<times> database)" where
  "delete_sessions fault p db =
     (if fault then Inl QueryFailed
      else Inr (\<lparr> count = length (filter p (sessions db)) \<rparr>,
                db\<lparr>sessions := filter (\<lambda>r. \<not> p r) (sessions db)\<rparr>))"

section \<open>Token lifecycle (token-verification)\<close>

text \<open>
  \<open>TokenVerificationResult\<close>: the optional fields are options, and the error code is the
  string the source writes.
\<close>

record TokenVerificationResult =
  success :: bool
  result_userId :: "int option"
  error :: "string option"
  message :: "string option"

text \<open>The error codes the type of \<open>TokenVerificationResult.error\<close> lists.\<close>

definition errorCodes :: "string set" where
  "errorCodes = {''INVALID_FORMAT'', ''NOT_FOUND'', ''EXPIRED'', ''ALREADY_USED'',
                 ''DATABASE_ERROR''}"

definition failure :: "string \<Rightarrow> string \<Rightarrow> TokenVerificationResult" where
  "failure code msg =
     \<lparr> success = False, result_userId = None, error = Some code, message = Some msg \<rparr>"

definition succeeded :: "int \<Rightarrow> TokenVerificationResult" where
  "succeeded uid =
     \<lparr> success = True, result_userId = Some uid, error = None, message = None \<rparr>"

text \<open>
  The disambiguating read's verdict (the body of \<open>if (result.length === 0)\<close> after the
  select): \<open>existingToken\<close> is what the select returned, \<open>now\<close> the instant the call took
  before its update.
\<close>

definition diagnose :: "timestamp \<Rightarrow> token_row list \<Rightarrow> TokenVerificationResult" where
  "diagnose now existingToken =
     (case existingToken of
        [] \<Rightarrow> failure ''NOT_FOUND'' ''Token not found or invalid''
      | tokenRecord # _ \<Rightarrow>
          if used tokenRecord
          then failure ''ALREADY_USED'' ''Token has already been used''
          else if expiresAt tokenRecord \<le> now
          then failure ''EXPIRED'' ''Token has expired''
          else failure ''DATABASE_ERROR'' ''Token verification failed for unknown reason'')"

text \<open>
  \<open>verifyAndConsumeToken\<close>. \<open>faultUpdate\<close> and \<open>faultSelect\<close> say whether the update and
  the disambiguating select fail, \<open>now\<close> is the value of \<open>new Date()\<close>; the function returns
  its result and the tables it leaves. The \<open>catch\<close> block is the \<open>Inl\<close> branch of each
  statement.
\<close>

definition verifyAndConsumeToken ::
  "(string \<Rightarrow> string) \<Rightarrow> bool \<Rightarrow> bool \<Rightarrow> timestamp \<Rightarrow> string \<Rightarrow> database
     \<Rightarrow> TokenVerificationResult \<times> database" where
  "verifyAndConsumeToken hashToken faultUpdate faultSelect now tok db =
     (if \<not> validateTokenFormat tok
      then (failure ''INVALID_FORMAT'' ''Token must be 16 characters of base64url format'', db)
      else
        let h = hashToken tok in
        case update_consume faultUpdate h now db of
          Inl e \<Rightarrow>
            (failure ''DATABASE_ERROR'' ''Database error during token verification'', db)
        | Inr (result, db') \<Rightarrow>
            (case result of
               [] \<Rightarrow>
                 (case select_by_hash faultSelect h db' of
                    Inl e \<Rightarrow>
                      (failure ''DATABASE_ERROR'' ''Database error during token verification'',
                       db')
                  | Inr existingToken \<Rightarrow> (diagnose now existingToken, db'))
             | consumedToken # _ \<Rightarrow> (succeeded (userId consumedToken), db')))"

text \<open>\<open>checkTokenValidity\<close>, with the fault flag of its one select.\<close>

definition checkTokenValidity ::
  "(string \<Rightarrow> string) \<Rightarrow> bool \<Rightarrow> timestamp \<Rightarrow> string \<Rightarrow> database
     \<Rightarrow> TokenVerificationResult \<times> database" where
  "checkTokenValidity hashToken faultSelect now tok db =
     (if \<not> validateTokenFormat tok
      then (failure ''INVALID_FORMAT'' ''Token must be 16 characters of base64url format'', db)
      else
        let h = hashToken tok in
        case select_by_hash faultSelect h db of
          Inl e \<Rightarrow>
            (failure ''DATABASE_ERROR'' ''Database error during token validity check'', db)
        | Inr result \<Rightarrow>
            (case result of
               [] \<Rightarrow> (failure ''NOT_FOUND'' ''Token not found or invalid'', db)
             | tokenRecord # _ \<Rightarrow>
                 if used tokenRecord
                 then (failure ''ALREADY_USED'' ''Token has already been used'', db)
                 else if expiresAt tokenRecord \<le> now
                 then (failure ''EXPIRED'' ''Token has expired'', db)
                 else (succeeded (userId tokenRecord), db)))"

text \<open>\<open>storeToken\<close>: the boolean it resolves to, and the tables it leaves.\<close>

definition storeToken ::
  "bool \<Rightarrow> timestamp \<Rightarrow> string \<Rightarrow> int \<Rightarrow> timestamp \<Rightarrow> database \<Rightarrow> bool \<times> database" where
  "storeToken fault dbNow h uid expires db =
     (case insert_token fault dbNow h uid expires db of
        Inl e \<Rightarrow> (False, db)
      | Inr db' \<Rightarrow> (True, db'))"

subsection \<open>Statistics\<close>

text \<open>
  The counts travel as text: the query casts each \<open>COUNT\<close> to \<open>text\<close> and the code reads
  it back with \<open>parseInt(., 10)\<close>. \<open>count_text\<close> is the decimal text of a count.
  \<open>parseInt10\<close> follows the language definition on the characters a \<open>string\<close> holds: it
  skips leading white space, reads a sign, then the longest run of decimal digits;
  \<open>None\<close> is \<open>NaN\<close>, the result when there is no digit.
\<close>

type_synonym js_number = "int option"

definition digit_char :: "nat \<Rightarrow> char" where
  "digit_char d = ''0123456789'' ! d"

fun count_text :: "nat \<Rightarrow> string" where
  "count_text n =
     (if n < 10 then [digit_char n] else count_text (n div 10) @ [digit_char (n mod 10)])"

declare count_text.simps [simp del]

definition isWhiteSpace :: "char \<Rightarrow> bool" where
  "isWhiteSpace c = ((of_char c :: nat) \<in> {9, 10, 11, 12, 13, 32, 160})"

definition isDecimalDigit :: "char \<Rightarrow> bool" where
  "isDecimalDigit c = (48 \<le> (of_char c :: nat) \<and> (of_char c :: nat) \<le> 57)"

definition digits_value :: "string \<Rightarrow> nat" where
  "digits_value ds = foldl (\<lambda>acc c. 10 * acc + ((of_char c :: nat) - 48)) 0 ds"

definition parseInt10 :: "string \<Rightarrow> js_number" where
  "parseInt10 s =
     (let trimmed = dropWhile isWhiteSpace s;
          negative = (case trimmed of [] \<Rightarrow> False | c # _ \<Rightarrow> c = CHR ''-'');
          unsigned = (case trimmed of
                        [] \<Rightarrow> []
                      | c # rest \<Rightarrow> if c = CHR ''-'' \<or> c = CHR ''+'' then rest else trimmed);
          ds = takeWhile isDecimalDigit unsigned
      in if ds = [] then None
         else Some (if negative then - int (digits_value ds) else int (digits_value ds)))"

record raw_stats =
  raw_total :: string
  raw_used :: string
  raw_expired :: string
  raw_active :: string

record token_stats =
  total :: js_number
  used_count :: js_number
  expired :: js_number
  active :: js_number

text \<open>
  The aggregate query over the rows of one user. \<open>currentTimestamp\<close> is the database's
  \<open>CURRENT_TIMESTAMP\<close>. An aggregate without grouping returns one row, also over no rows.
\<close>

definition stats_query ::
  "bool \<Rightarrow> int \<Rightarrow> timestamp \<Rightarrow> database \<Rightarrow> db_error + raw_stats list" where
  "stats_query fault uid currentTimestamp db =
     (if fault then Inl QueryFailed
      else
        let rows = filter (\<lambda>r. userId r = uid) (oneTimeTokens db) in
        Inr [\<lparr> raw_total = count_text (length rows),
                raw_used = count_text (length (filter (\<lambda>r. used r = True) rows)),
                raw_expired = count_text (length (filter
                   (\<lambda>r. expiresAt r \<le> currentTimestamp \<and> used r = False) rows)),
                raw_active = count_text (length (filter
                   (\<lambda>r. expiresAt r > currentTimestamp \<and> used r = False) rows)) \<rparr>])"

definition getTokenStats :: "bool \<Rightarrow> int \<Rightarrow> timestamp \<Rightarrow> database \<Rightarrow> token_stats" where
  "getTokenStats fault uid currentTimestamp db =
     (case stats_query fault uid currentTimestamp db of
        Inl e \<Rightarrow> \<lparr> total = Some 0, used_count = Some 0, expired = Some 0, active = Some 0 \<rparr>
      | Inr rawStats \<Rightarrow>
          let raw = (case rawStats of
                       [] \<Rightarrow> \<lparr> raw_total = ''0'', raw_used = ''0'', raw_expired = ''0'',
                                raw_active = ''0'' \<rparr>
                     | r # _ \<Rightarrow> r)
          in \<lparr> total = parseInt10 (raw_total raw),
               used_count = parseInt10 (raw_used raw),
               expired = parseInt10 (raw_expired raw),
               active = parseInt10 (raw_active raw) \<rparr>)"

section \<open>Retention sweep (cleanupExpiredTokensAndSessions)\<close>

record cleanup_stats =
  expiredTokens :: nat
  expiredSessions :: nat
  oldUsedTokens :: nat

text \<open>
  \<open>x || 0\<close> on a count that may be \<open>undefined\<close>: \<open>undefined\<close> and \<open>0\<close> give \<open>0\<close>, any
  other count gives itself.
\<close>

definition or_zero :: "nat option \<Rightarrow> nat" where
  "or_zero x = (case x of None \<Rightarrow> 0 | Some n \<Rightarrow> n)"

text \<open>
  The three deletes of the \<open>try\<close> block, in the source's order, each with its fault flag.
  The \<open>catch\<close> block logs and rethrows, so a delete that throws ends the function with the
  error (\<open>Inl\<close>) and with the tables as the deletes before it left them; the \<open>finally\<close>
  block closes the connection and touches no table. The statistics are read from
  \<open>rowCount\<close>, so each of them is \<open>0\<close> whatever the deletes removed.
\<close>

definition cleanupExpiredTokensAndSessions ::
  "bool \<Rightarrow> bool \<Rightarrow> bool \<Rightarrow> timestamp \<Rightarrow> database \<Rightarrow> (db_error + cleanup_stats) \<times> database" where
  "cleanupExpiredTokensAndSessions faultTokens faultSessions faultOldUsed now db =
     (case delete_tokens faultTokens (\<lambda>r. expiresAt r < now) db of
        Inl e \<Rightarrow> (Inl e, db)
      | Inr (expiredTokensResult, db1) \<Rightarrow>
          (case delete_sessions faultSessions (\<lambda>r. session_expiresAt r < now) db1 of
             Inl e \<Rightarrow> (Inl e, db1)
           | Inr (expiredSessionsResult, db2) \<Rightarrow>
               let thirtyDaysAgo = now - (30 * 24 * 60 * 60 * 1000) in
               (case delete_tokens faultOldUsed
                       (\<lambda>r. case usedAt r of None \<Rightarrow> False | Some t \<Rightarrow> t < thirtyDaysAgo) db2 of
                  Inl e \<Rightarrow> (Inl e, db2)
                | Inr (oldUsedTokensResult, db3) \<Rightarrow>
                    (Inr \<lparr> expiredTokens = or_zero (rowCount expiredTokensResult),
                           expiredSessions = or_zero (rowCount expiredSessionsResult),
                           oldUsedTokens = or_zero (rowCount oldUsedTokensResult) \<rparr>, db3))))"

section \<open>Concurrent redemption\<close>

text \<open>
  Several calls of \<open>verifyAndConsumeToken\<close> on one digest, run at once against the same
  tables. A call that has passed the format check and taken its \<open>now\<close> is \<open>Pending\<close>: its
  next step is the consuming update. When the update returned no row the call is
  \<open>Diagnosing\<close>: its next step is the disambiguating select. Then it is \<open>Done\<close> with its
  result. The statements are atomic and do not fail here, and nothing else writes to the
  tables; the calls interleave in any order.
\<close>

datatype call_state =
  Pending timestamp
  | Diagnosing timestamp
  | Done TokenVerificationResult

definition consume_step :: "string \<Rightarrow> timestamp \<Rightarrow> database \<Rightarrow> call_state \<times> database" where
  "consume_step h now db =
     (case update_consume False h now db of
        Inl e \<Rightarrow>
          (Done (failure ''DATABASE_ERROR'' ''Database error during token verification''), db)
      | Inr (result, db') \<Rightarrow>
          (case result of
             [] \<Rightarrow> (Diagnosing now, db')
           | consumedToken # _ \<Rightarrow> (Done (succeeded (userId consumedToken)), db')))"

definition diagnose_step :: "string \<Rightarrow> timestamp \<Rightarrow> database \<Rightarrow> call_state" where
  "diagnose_step h now db =
     (case select_by_hash False h db of
        Inl e \<Rightarrow> Done (failure ''DATABASE_ERROR'' ''Database error during token verification'')
      | Inr existingToken \<Rightarrow> Done (diagnose now existingToken))"

text \<open>One step of call \<open>i\<close>; a call that is done, or an index that names no call, does nothing.\<close>

definition step_call ::
  "string \<Rightarrow> nat \<Rightarrow> database \<times> call_state list \<Rightarrow> database \<times> call_state list" where
  "step_call h i s =
     (case s of (db, calls) \<Rightarrow>
        if i < length calls then
          (case calls ! i of
             Pending now \<Rightarrow>
               (case consume_step h now db of (c, db') \<Rightarrow> (db', calls[i := c]))
           | Diagnosing now \<Rightarrow> (db, calls[i := diagnose_step h now db])
           | Done r \<Rightarrow> (db, calls))
        else (db, calls))"

text \<open>
  An interleaving is a schedule: the list of the calls that take the next step, in order.
\<close>

fun run_schedule ::
  "string \<Rightarrow> nat list \<Rightarrow> database \<times> call_state list \<Rightarrow> database \<times> call_state list" where
  "run_schedule h [] s = s"
| "run_schedule h (i # schedule) s = run_schedule h schedule (step_call h i s)"

definition observed_success :: "call_state \<Rightarrow> bool" where
  "observed_success c = (case c of Done r \<Rightarrow> success r | _ \<Rightarrow> False)"

definition finished :: "call_state \<Rightarrow> bool" where
  "finished c = (case c of Done r \<Rightarrow> True | _ \<Rightarrow> False)"

subsection \<open>Invariants of the interleavings\<close>

text \<open>
  Two situations cover every state the calls can reach from a table that holds an unused
  row \<open>r\<close> for the digest. Either nothing has happened yet: the tables are the initial
  ones and every call is pending, with its \<open>now\<close> before the row's expiry. Or one call has
  consumed the row: the digest's row is used, that call is done with success, and every
  other call is pending, diagnosing, or done with \<open>ALREADY_USED\<close>. \<open>rank\<close> counts the
  steps a call has left at most.
\<close>

definition already_used :: TokenVerificationResult where
  "already_used = failure ''ALREADY_USED'' ''Token has already been used''"

definition inv_fresh :: "database \<Rightarrow> token_row \<Rightarrow> database \<times> call_state list \<Rightarrow> bool" where
  "inv_fresh db0 r s =
     (fst s = db0 \<and> snd s \<noteq> [] \<and> (\<forall>c\<in>set (snd s). \<exists>t. c = Pending t \<and> t < expiresAt r))"

definition inv_consumed :: "string \<Rightarrow> token_row \<Rightarrow> database \<times> call_state list \<Rightarrow> bool" where
  "inv_consumed h r s =
     (distinct (map tokenHash (oneTimeTokens (fst s)))
      \<and> (\<exists>r'\<in>set (oneTimeTokens (fst s)). tokenHash r' = h \<and> used r')
      \<and> (\<exists>k<length (snd s). snd s ! k = Done (succeeded (userId r))
            \<and> (\<forall>i<length (snd s). i \<noteq> k \<longrightarrow>
                  (\<exists>t. snd s ! i = Pending t) \<or> (\<exists>t. snd s ! i = Diagnosing t)
                  \<or> snd s ! i = Done already_used)))"

definition rank :: "call_state \<Rightarrow> nat" where
  "rank c = (case c of Pending t \<Rightarrow> 2 | Diagnosing t \<Rightarrow> 1 | Done r \<Rightarrow> 0)"

text \<open>
  A stand-in for SHA-256 on which the definitions can be evaluated. The theorems below
  hold for every digest function; this one only serves to run them on concrete tokens.
\<close>

definition toy_digest :: "string \<Rightarrow> string" where
  "toy_digest tok = ''sha256:'' @ tok"

section \<open>Properties of the codec\<close>

lemma base64urlClass_iff: "base64urlClass c \<longleftrightarrow> c \<in> set urlSafeAlphabet"
  by (cases c) (simp add: base64urlClass_def urlSafeAlphabet_def Let_def)

lemma base64urlPattern_test_iff:
  "base64urlPattern_test s \<longleftrightarrow> s \<noteq> [] \<and> set s \<subseteq> set urlSafeAlphabet"
  by (auto simp: base64urlPattern_test_def list_all_iff base64urlClass_iff)

lemma validateTokenFormat_alphabet:
  "validateTokenFormat s \<longleftrightarrow> length s = 16 \<and> set s \<subseteq> set urlSafeAlphabet"
  by (auto simp: validateTokenFormat_def DEFAULT_TOKEN_CONFIG_def base64urlPattern_test_iff)

lemma length_urlSafeAlphabet: "length urlSafeAlphabet = 64"
  by (simp add: urlSafeAlphabet_def)

lemma sextet_in_alphabet: "sextet n \<in> set urlSafeAlphabet"
  unfolding sextet_def by (rule nth_mem) (simp add: length_urlSafeAlphabet)

lemma length_toString_base64url:
  "length (toString_base64url bs) = (4 * length bs + 2) div 3"
  by (induction bs rule: toString_base64url.induct) (simp_all add: Let_def)

lemma set_toString_base64url: "set (toString_base64url bs) \<subseteq> set urlSafeAlphabet"
  by (induction bs rule: toString_base64url.induct) (simp_all add: Let_def sextet_in_alphabet)

lemma generateOneTimeToken_Inr:
  assumes "generateOneTimeToken randomBytes = Inr t"
  shows "t = toString_base64url randomBytes \<and> length t = 16 \<and> validateTokenFormat t"
proof -
  from assms have t: "t = toString_base64url randomBytes" and len: "length t = 16"
    by (auto simp: generateOneTimeToken_def DEFAULT_TOKEN_CONFIG_def Let_def split: if_splits)
  from t have "set t \<subseteq> set urlSafeAlphabet"
    by (simp add: set_toString_base64url)
  with len have "validateTokenFormat t"
    by (simp add: validateTokenFormat_alphabet)
  with t len show ?thesis by simp
qed

text \<open>
  C6: \<open>validateTokenFormat\<close> accepts a candidate exactly when it is 16 characters long and
  each of its characters is one of the 64 letters, digits, \<open>-\<close> and \<open>_\<close>. So it rejects a
  candidate of 15 or of 17 characters, and a candidate that holds \<open>+\<close>, \<open>/\<close>, \<open>=\<close>, a
  space, a tab, a line feed, a vertical tab, a form feed or a carriage return.
\<close>

theorem validateTokenFormat_iff:
  "(validateTokenFormat candidate \<longleftrightarrow>
      length candidate = 16 \<and> set candidate \<subseteq> set urlSafeAlphabet)
   \<and> (length candidate = 15 \<or> length candidate = 17 \<longrightarrow> \<not> validateTokenFormat candidate)
   \<and> (set candidate \<inter> {CHR ''+'', CHR ''/'', CHR ''='', CHR '' '', CHR 0x09, CHR 0x0A,
          CHR 0x0B, CHR 0x0C, CHR 0x0D} \<noteq> {} \<longrightarrow> \<not> validateTokenFormat candidate)"
proof -
  have main: "validateTokenFormat candidate \<longleftrightarrow>
      length candidate = 16 \<and> set candidate \<subseteq> set urlSafeAlphabet"
    by (rule validateTokenFormat_alphabet)
  have len: "length candidate = 15 \<or> length candidate = 17 \<longrightarrow> \<not> validateTokenFormat candidate"
    using main by auto
  have bad: "{CHR ''+'', CHR ''/'', CHR ''='', CHR '' '', CHR 0x09, CHR 0x0A,
          CHR 0x0B, CHR 0x0C, CHR 0x0D} \<inter> set urlSafeAlphabet = {}"
    by (simp add: urlSafeAlphabet_def)
  have chars: "set candidate \<inter> {CHR ''+'', CHR ''/'', CHR ''='', CHR '' '', CHR 0x09, CHR 0x0A,
          CHR 0x0B, CHR 0x0C, CHR 0x0D} \<noteq> {} \<longrightarrow> \<not> validateTokenFormat candidate"
    using main bad by blast
  from main len chars show ?thesis by blast
qed

theorem validateTokenFormat_iff_witness:
  "validateTokenFormat ''AbC123dEf456GhI7''
   \<and> \<not> validateTokenFormat ''AbC123dEf456GhI''
   \<and> \<not> validateTokenFormat ''AbC123dEf456GhI78''
   \<and> \<not> validateTokenFormat ''AbC123dEf456GhI+''
   \<and> \<not> validateTokenFormat ''AbC123dEf456Gh 7''"
  using validateTokenFormat_iff [of "''AbC123dEf456GhI7''"]
    validateTokenFormat_iff [of "''AbC123dEf456GhI''"]
    validateTokenFormat_iff [of "''AbC123dEf456GhI78''"]
    validateTokenFormat_iff [of "''AbC123dEf456GhI+''"]
    validateTokenFormat_iff [of "''AbC123dEf456Gh 7''"]
  by (simp add: urlSafeAlphabet_def)

text \<open>
  C7: on every 12 random bytes \<open>generateOneTimeToken\<close> returns a token and does not throw:
  the encoding of 12 bytes has 16 characters, all of the URL-safe alphabet, so the length
  check passes, and the token satisfies \<open>validateTokenFormat\<close>.
\<close>

theorem generateOneTimeToken_returns:
  assumes "length randomBytes = entropyBytes DEFAULT_TOKEN_CONFIG"
  shows "\<exists>t. generateOneTimeToken randomBytes = Inr t \<and> length t = 16
             \<and> set t \<subseteq> set urlSafeAlphabet \<and> validateTokenFormat t"
proof -
  let ?t = "toString_base64url randomBytes"
  from assms have len: "length ?t = 16"
    by (simp add: length_toString_base64url DEFAULT_TOKEN_CONFIG_def)
  have alpha: "set ?t \<subseteq> set urlSafeAlphabet"
    by (rule set_toString_base64url)
  from len have ret: "generateOneTimeToken randomBytes = Inr ?t"
    by (simp add: generateOneTimeToken_def DEFAULT_TOKEN_CONFIG_def)
  from len alpha have "validateTokenFormat ?t"
    by (simp add: validateTokenFormat_alphabet)
  with ret len alpha show ?thesis by blast
qed

theorem generateOneTimeToken_returns_witness:
  "length [0, 0, 0, 255, 255, 255, 1, 2, 3, 4, 5, 6 :: byte] = entropyBytes DEFAULT_TOKEN_CONFIG
   \<and> generateOneTimeToken [0, 0, 0, 255, 255, 255, 1, 2, 3, 4, 5, 6] = Inr ''AAAA____AQIDBAUG''
   \<and> validateTokenFormat ''AAAA____AQIDBAUG''"
proof -
  have h: "length [0, 0, 0, 255, 255, 255, 1, 2, 3, 4, 5, 6 :: byte]
             = entropyBytes DEFAULT_TOKEN_CONFIG"
    by (simp add: DEFAULT_TOKEN_CONFIG_def)
  have v: "generateOneTimeToken [0, 0, 0, 255, 255, 255, 1, 2, 3, 4, 5, 6]
             = Inr ''AAAA____AQIDBAUG''"
    by (simp add: generateOneTimeToken_def DEFAULT_TOKEN_CONFIG_def Let_def sextet_def
        urlSafeAlphabet_def)
  from generateOneTimeToken_returns [OF h] v h show ?thesis by auto
qed

section \<open>Properties of the store's statements\<close>

lemma filter_key_unique:
  "distinct (map tokenHash rows) \<Longrightarrow> r \<in> set rows \<Longrightarrow>
     filter (\<lambda>x. tokenHash x = tokenHash r) rows = [r]"
proof (induction rows)
  case Nil
  then show ?case by simp
next
  case (Cons a rows)
  show ?case
  proof (cases "a = r")
    case True
    with Cons.prems have "\<forall>x\<in>set rows. tokenHash x \<noteq> tokenHash r"
      by (auto simp: image_iff)
    then have "filter (\<lambda>x. tokenHash x = tokenHash r) rows = []"
      by (simp add: filter_empty_conv)
    with True show ?thesis by simp
  next
    case False
    with Cons.prems have rin: "r \<in> set rows" and d: "distinct (map tokenHash rows)"
      by auto
    from Cons.prems rin have "tokenHash a \<noteq> tokenHash r"
      by (auto simp: image_iff)
    with Cons.IH [OF d rin] show ?thesis by simp
  qed
qed

lemma filter_key_absent:
  "h \<notin> tokenHash ` set rows \<Longrightarrow> filter (\<lambda>x. tokenHash x = h) rows = []"
  by (auto simp: filter_empty_conv)

lemma consumable_filter:
  "filter (consumable h now) rows =
     filter (\<lambda>x. used x = False \<and> expiresAt x > now) (filter (\<lambda>x. tokenHash x = h) rows)"
  by (rule filter_cong [OF refl, THEN trans, OF _ filter_filter [symmetric]])
     (auto simp: consumable_def)

lemma database_tokens_same: "db\<lparr>oneTimeTokens := oneTimeTokens db\<rparr> = db"
  by simp

lemma update_consume_no_match:
  assumes "\<forall>x\<in>set (oneTimeTokens db). \<not> consumable h now x"
  shows "update_consume False h now db = Inr ([], db)"
proof -
  from assms have f: "filter (consumable h now) (oneTimeTokens db) = []"
    by (simp add: filter_empty_conv)
  from assms have m: "map (\<lambda>r. if consumable h now r then markUsed now r else r)
                        (oneTimeTokens db) = oneTimeTokens db"
    by (simp add: map_idI)
  show ?thesis by (simp add: update_consume_def f m)
qed

lemma tokenHash_markUsed: "tokenHash (markUsed now r) = tokenHash r"
  by (simp add: markUsed_def)

lemma update_consume_match:
  assumes d: "distinct (map tokenHash (oneTimeTokens db))"
    and rin: "r \<in> set (oneTimeTokens db)" and c: "consumable h now r"
  shows "\<exists>db'. update_consume False h now db = Inr ([markUsed now r], db')
            \<and> map tokenHash (oneTimeTokens db') = map tokenHash (oneTimeTokens db)
            \<and> markUsed now r \<in> set (oneTimeTokens db')
            \<and> users db' = users db \<and> sessions db' = sessions db"
proof -
  from c have h: "tokenHash r = h" by (simp add: consumable_def)
  from filter_key_unique [OF d rin] h
  have "filter (\<lambda>x. tokenHash x = h) (oneTimeTokens db) = [r]" by simp
  with c have f: "filter (consumable h now) (oneTimeTokens db) = [r]"
    by (simp add: consumable_filter consumable_def)
  let ?rows = "map (\<lambda>r. if consumable h now r then markUsed now r else r) (oneTimeTokens db)"
  have keys: "map tokenHash ?rows = map tokenHash (oneTimeTokens db)"
    by (simp add: list_eq_iff_nth_eq tokenHash_markUsed)
  from rin c have mem: "markUsed now r \<in> set ?rows"
    by (force simp: image_iff)
  show ?thesis
    using mem by (simp add: update_consume_def f tokenHash_markUsed)
qed

lemma select_by_hash_found:
  "distinct (map tokenHash (oneTimeTokens db)) \<Longrightarrow> r \<in> set (oneTimeTokens db) \<Longrightarrow>
     select_by_hash False (tokenHash r) db = Inr [r]"
  by (simp add: select_by_hash_def filter_key_unique)

lemma select_by_hash_absent:
  "h \<notin> tokenHash ` set (oneTimeTokens db) \<Longrightarrow> select_by_hash False h db = Inr []"
  by (simp add: select_by_hash_def filter_key_absent)

lemma not_consumable_used:
  assumes d: "distinct (map tokenHash (oneTimeTokens db))"
    and rin: "r \<in> set (oneTimeTokens db)" and blocked: "used r \<or> expiresAt r \<le> now"
  shows "\<forall>x\<in>set (oneTimeTokens db). \<not> consumable (tokenHash r) now x"
proof
  fix x assume xin: "x \<in> set (oneTimeTokens db)"
  show "\<not> consumable (tokenHash r) now x"
  proof
    assume cx: "consumable (tokenHash r) now x"
    then have "tokenHash x = tokenHash r" by (simp add: consumable_def)
    with xin have "x \<in> set (filter (\<lambda>x. tokenHash x = tokenHash r) (oneTimeTokens db))"
      by simp
    with filter_key_unique [OF d rin] have "x \<in> set [r]"
      by simp
    then have "x = r" by simp
    with cx blocked show False by (auto simp: consumable_def)
  qed
qed

lemma not_consumable_absent:
  "h \<notin> tokenHash ` set (oneTimeTokens db) \<Longrightarrow>
     \<forall>x\<in>set (oneTimeTokens db). \<not> consumable h now x"
  by (auto simp: consumable_def)

section \<open>Properties of the lifecycle operations\<close>

lemma storeToken_True:
  assumes "storeToken fault dbNow h uid expires db0 = (True, db1)"
  shows "oneTimeTokens db1 = oneTimeTokens db0 @
           [\<lparr> tokenHash = h, userId = uid, createdAt = dbNow, expiresAt = expires,
              usedAt = None, used = False \<rparr>]
         \<and> h \<notin> tokenHash ` set (oneTimeTokens db0)
         \<and> users db1 = users db0 \<and> sessions db1 = sessions db0 \<and> uid \<in> set (users db0)"
  using assms by (auto simp: storeToken_def insert_token_def split: if_splits)

lemma filter_key_appended:
  assumes "h \<notin> tokenHash ` set rows" and "tokenHash r = h"
  shows "filter (\<lambda>x. tokenHash x = h) (rows @ [r]) = [r]"
  using assms by (simp add: filter_key_absent)

lemma verify_success:
  assumes valid: "validateTokenFormat tok"
    and rows: "filter (\<lambda>x. tokenHash x = hashToken tok) (oneTimeTokens db) = [r]"
    and fresh: "used r = False" "now < expiresAt r"
  shows "verifyAndConsumeToken hashToken False faultSelect now tok db =
           (succeeded (userId r),
            db\<lparr>oneTimeTokens := map (\<lambda>x. if consumable (hashToken tok) now x
                                           then markUsed now x else x) (oneTimeTokens db)\<rparr>)"
proof -
  from rows fresh have "filter (consumable (hashToken tok) now) (oneTimeTokens db) = [r]"
    by (simp add: consumable_filter)
  with valid show ?thesis
    by (simp add: verifyAndConsumeToken_def update_consume_def Let_def markUsed_def)
qed

lemma verify_blocked:
  assumes valid: "validateTokenFormat tok"
    and none: "\<forall>x\<in>set (oneTimeTokens db). \<not> consumable (hashToken tok) now x"
    and sel: "select_by_hash False (hashToken tok) db = Inr existing"
  shows "verifyAndConsumeToken hashToken False False now tok db = (diagnose now existing, db)"
  using valid sel by (simp add: verifyAndConsumeToken_def update_consume_no_match [OF none] Let_def)

text \<open>
  C2: a token is stored (the insert succeeded) and has not expired when it is first
  redeemed. The first \<open>verifyAndConsumeToken\<close> of the raw token succeeds with the user
  the token was stored for, and the one update leaves the row with \<open>used = true\<close> and
  \<open>usedAt\<close> the instant of the call. A second call on the same raw token fails with
  \<open>ALREADY_USED\<close> and changes nothing.
\<close>

theorem redeem_once:
  assumes valid: "validateTokenFormat tok"
    and stored: "storeToken fault dbNow (hashToken tok) uid expires db0 = (True, db1)"
    and unexpired: "now1 < expires"
    and first: "verifyAndConsumeToken hashToken False False now1 tok db1 = (res1, db2)"
    and second: "verifyAndConsumeToken hashToken False False now2 tok db2 = (res2, db3)"
  shows "res1 = succeeded uid
         \<and> oneTimeTokens db2 = oneTimeTokens db0 @
             [\<lparr> tokenHash = hashToken tok, userId = uid, createdAt = dbNow,
                expiresAt = expires, usedAt = Some now1, used = True \<rparr>]
         \<and> res2 = failure ''ALREADY_USED'' ''Token has already been used''
         \<and> db3 = db2"
proof -
  let ?h = "hashToken tok"
  let ?r = "\<lparr> tokenHash = ?h, userId = uid, createdAt = dbNow, expiresAt = expires,
              usedAt = None, used = False \<rparr>"
  let ?u = "\<lparr> tokenHash = ?h, userId = uid, createdAt = dbNow, expiresAt = expires,
              usedAt = Some now1, used = True \<rparr>"
  from storeToken_True [OF stored]
  have rows1: "oneTimeTokens db1 = oneTimeTokens db0 @ [?r]"
    and absent: "?h \<notin> tokenHash ` set (oneTimeTokens db0)"
    by simp_all
  from absent have sel1: "filter (\<lambda>x. tokenHash x = ?h) (oneTimeTokens db1) = [?r]"
    unfolding rows1 by (rule filter_key_appended) simp
  from verify_success [where hashToken = hashToken and tok = tok and now = now1
      and faultSelect = False, OF valid sel1] unexpired first
  have res1: "res1 = succeeded uid"
    and db2: "db2 = db1\<lparr>oneTimeTokens := map (\<lambda>x. if consumable ?h now1 x
                                           then markUsed now1 x else x) (oneTimeTokens db1)\<rparr>"
    by simp_all
  from absent have old: "map (\<lambda>x. if consumable ?h now1 x then markUsed now1 x else x)
                           (oneTimeTokens db0) = oneTimeTokens db0"
    using not_consumable_absent [OF absent, of now1] by (simp add: map_idI)
  from unexpired have new: "(if consumable ?h now1 ?r then markUsed now1 ?r else ?r) = ?u"
    by (simp add: consumable_def markUsed_def)
  from db2 have rows2: "oneTimeTokens db2 = oneTimeTokens db0 @ [?u]"
    by (simp add: rows1 old new)
  from absent have sel2: "select_by_hash False ?h db2 = Inr [?u]"
    by (simp add: select_by_hash_def rows2 filter_key_absent)
  from not_consumable_absent [OF absent, of now2]
  have none: "\<forall>x\<in>set (oneTimeTokens db2). \<not> consumable ?h now2 x"
    by (simp add: rows2 consumable_def)
  from verify_blocked [where hashToken = hashToken and tok = tok, OF valid none sel2] second
  have "res2 = diagnose now2 [?u]" and db3: "db3 = db2"
    by simp_all
  then have res2: "res2 = failure ''ALREADY_USED'' ''Token has already been used''"
    by (simp add: diagnose_def)
  from res1 rows2 res2 db3 show ?thesis by simp
qed


lemma length_toy_digest: "length (toy_digest tok) = 7 + length tok"
  by (simp add: toy_digest_def)

lemma example_token_valid: "validateTokenFormat ''AbC123dEf456GhI7''"
  by (simp add: validateTokenFormat_alphabet urlSafeAlphabet_def)

theorem redeem_once_witness:
  "validateTokenFormat ''AbC123dEf456GhI7''
   \<and> storeToken False 1000 (toy_digest ''AbC123dEf456GhI7'') 7 5000
        \<lparr> users = [7], oneTimeTokens = [], sessions = [] \<rparr>
      = (True, \<lparr> users = [7],
                 oneTimeTokens = [\<lparr> tokenHash = toy_digest ''AbC123dEf456GhI7'', userId = 7,
                    createdAt = 1000, expiresAt = 5000, usedAt = None, used = False \<rparr>],
                 sessions = [] \<rparr>)
   \<and> (1500 :: int) < 5000
   \<and> verifyAndConsumeToken toy_digest False False 1500 ''AbC123dEf456GhI7''
        \<lparr> users = [7],
          oneTimeTokens = [\<lparr> tokenHash = toy_digest ''AbC123dEf456GhI7'', userId = 7,
             createdAt = 1000, expiresAt = 5000, usedAt = None, used = False \<rparr>],
          sessions = [] \<rparr>
      = (succeeded 7,
         \<lparr> users = [7],
           oneTimeTokens = [\<lparr> tokenHash = toy_digest ''AbC123dEf456GhI7'', userId = 7,
              createdAt = 1000, expiresAt = 5000, usedAt = Some 1500, used = True \<rparr>],
           sessions = [] \<rparr>)
   \<and> verifyAndConsumeToken toy_digest False False 1600 ''AbC123dEf456GhI7''
        \<lparr> users = [7],
          oneTimeTokens = [\<lparr> tokenHash = toy_digest ''AbC123dEf456GhI7'', userId = 7,
             createdAt = 1000, expiresAt = 5000, usedAt = Some 1500, used = True \<rparr>],
          sessions = [] \<rparr>
      = (failure ''ALREADY_USED'' ''Token has already been used'',
         \<lparr> users = [7],
           oneTimeTokens = [\<lparr> tokenHash = toy_digest ''AbC123dEf456GhI7'', userId = 7,
              createdAt = 1000, expiresAt = 5000, usedAt = Some 1500, used = True \<rparr>],
           sessions = [] \<rparr>)"
proof -
  let ?T = "''AbC123dEf456GhI7''"
  let ?db0 = "\<lparr> users = [7], oneTimeTokens = [], sessions = [] \<rparr>"
  let ?db1 = "\<lparr> users = [7],
          oneTimeTokens = [\<lparr> tokenHash = toy_digest ?T, userId = 7,
             createdAt = 1000, expiresAt = 5000, usedAt = None, used = False \<rparr>],
          sessions = [] \<rparr>"
  let ?db2 = "\<lparr> users = [7],
          oneTimeTokens = [\<lparr> tokenHash = toy_digest ?T, userId = 7,
             createdAt = 1000, expiresAt = 5000, usedAt = Some 1500, used = True \<rparr>],
          sessions = [] \<rparr>"
  let ?run1 = "verifyAndConsumeToken toy_digest False False 1500 ?T ?db1"
  let ?run2 = "verifyAndConsumeToken toy_digest False False 1600 ?T ?db2"
  have h1: "validateTokenFormat ?T" by (rule example_token_valid)
  have h2: "storeToken False 1000 (toy_digest ?T) 7 5000 ?db0 = (True, ?db1)"
    by (simp add: storeToken_def insert_token_def length_toy_digest)
  have h3: "(1500 :: int) < 5000" by simp
  have h4: "?run1 = (fst ?run1, ?db2)"
    by (simp add: verifyAndConsumeToken_def update_consume_def consumable_def markUsed_def h1)
  have h5: "?run2 = (fst ?run2, snd ?run2)"
    by simp
  from redeem_once [OF h1 h2 h3 h4 h5]
  have c1: "fst ?run1 = succeeded 7"
    and c2: "fst ?run2 = failure ''ALREADY_USED'' ''Token has already been used''"
    and c3: "snd ?run2 = ?db2"
    by blast+
  from h4 c1 have r1: "?run1 = (succeeded 7, ?db2)" by simp
  from c2 c3 have r2: "?run2 = (failure ''ALREADY_USED'' ''Token has already been used'', ?db2)"
    by (simp add: prod_eq_iff)
  from h1 h2 h3 r1 r2 show ?thesis by blast
qed

text \<open>
  C3: the token has a valid format, the table's keys are distinct and no statement fails.
  Redeeming a digest that has no row reports \<open>NOT_FOUND\<close>; a row that is used,
  \<open>ALREADY_USED\<close>; a row that is unused with \<open>expiresAt \<le> now\<close>, \<open>EXPIRED\<close>; in each
  case the tables are as before. A row with \<open>expiresAt \<le> now\<close> never gives success,
  whichever statement fails. Whenever the update returns no row, the reported code is one
  of these three.
\<close>

theorem redeem_diagnosis:
  assumes valid: "validateTokenFormat tok"
    and keys: "distinct (map tokenHash (oneTimeTokens db))"
  shows "(hashToken tok \<notin> tokenHash ` set (oneTimeTokens db) \<longrightarrow>
            verifyAndConsumeToken hashToken False False now tok db
              = (failure ''NOT_FOUND'' ''Token not found or invalid'', db))
       \<and> (\<forall>r\<in>set (oneTimeTokens db). tokenHash r = hashToken tok \<and> used r \<longrightarrow>
            verifyAndConsumeToken hashToken False False now tok db
              = (failure ''ALREADY_USED'' ''Token has already been used'', db))
       \<and> (\<forall>r\<in>set (oneTimeTokens db).
            tokenHash r = hashToken tok \<and> \<not> used r \<and> expiresAt r \<le> now \<longrightarrow>
            verifyAndConsumeToken hashToken False False now tok db
              = (failure ''EXPIRED'' ''Token has expired'', db))
       \<and> (\<forall>r\<in>set (oneTimeTokens db). tokenHash r = hashToken tok \<and> expiresAt r \<le> now \<longrightarrow>
            \<not> success (fst (verifyAndConsumeToken hashToken faultUpdate faultSelect now tok db)))
       \<and> ((\<exists>db'. update_consume False (hashToken tok) now db = Inr ([], db')) \<longrightarrow>
            error (fst (verifyAndConsumeToken hashToken False False now tok db))
              \<in> {Some ''NOT_FOUND'', Some ''ALREADY_USED'', Some ''EXPIRED''})"
proof -
  let ?h = "hashToken tok"
  let ?run = "verifyAndConsumeToken hashToken False False now tok db"
  have absent: "?run = (failure ''NOT_FOUND'' ''Token not found or invalid'', db)"
    if "?h \<notin> tokenHash ` set (oneTimeTokens db)"
    using verify_blocked [where hashToken = hashToken and tok = tok, OF valid
        not_consumable_absent [OF that] select_by_hash_absent [OF that]]
    by (simp add: diagnose_def)
  have blocked: "?run = (diagnose now [r], db)"
    if "r \<in> set (oneTimeTokens db)" "tokenHash r = ?h" "used r \<or> expiresAt r \<le> now" for r
  proof -
    from not_consumable_used [OF keys that(1) that(3)] that(2)
    have none: "\<forall>x\<in>set (oneTimeTokens db). \<not> consumable ?h now x" by simp
    from select_by_hash_found [OF keys that(1)] that(2)
    have sel: "select_by_hash False ?h db = Inr [r]" by simp
    from verify_blocked [where hashToken = hashToken and tok = tok, OF valid none sel]
    show ?thesis .
  qed
  have usedc: "?run = (failure ''ALREADY_USED'' ''Token has already been used'', db)"
    if "r \<in> set (oneTimeTokens db)" "tokenHash r = ?h" "used r" for r
    using blocked [OF that(1,2)] that(3) by (simp add: diagnose_def)
  have expc: "?run = (failure ''EXPIRED'' ''Token has expired'', db)"
    if "r \<in> set (oneTimeTokens db)" "tokenHash r = ?h" "\<not> used r" "expiresAt r \<le> now" for r
    using blocked [OF that(1,2)] that(3,4) by (simp add: diagnose_def)
  have never: "\<not> success (fst (verifyAndConsumeToken hashToken faultUpdate faultSelect now tok db))"
    if "r \<in> set (oneTimeTokens db)" "tokenHash r = ?h" "expiresAt r \<le> now" for r
  proof -
    from not_consumable_used [OF keys that(1)] that(2,3)
    have none: "\<forall>x\<in>set (oneTimeTokens db). \<not> consumable ?h now x" by simp
    show ?thesis
    proof (cases faultUpdate)
      case True
      with valid show ?thesis
        by (simp add: verifyAndConsumeToken_def update_consume_def Let_def failure_def)
    next
      case False
      with valid update_consume_no_match [OF none] show ?thesis
        by (cases "select_by_hash faultSelect ?h db")
           (auto simp: verifyAndConsumeToken_def Let_def failure_def diagnose_def
                 split: list.splits)
    qed
  qed
  have zero: "error (fst ?run) \<in> {Some ''NOT_FOUND'', Some ''ALREADY_USED'', Some ''EXPIRED''}"
    if "\<exists>db'. update_consume False ?h now db = Inr ([], db')"
  proof (cases "?h \<in> tokenHash ` set (oneTimeTokens db)")
    case False
    with absent show ?thesis by (simp add: failure_def)
  next
    case True
    then obtain r where rin: "r \<in> set (oneTimeTokens db)" and rh: "tokenHash r = ?h"
      by auto
    from that have "filter (consumable ?h now) (oneTimeTokens db) = []"
      by (auto simp: update_consume_def)
    with rin have "\<not> consumable ?h now r"
      by (simp add: filter_empty_conv)
    with rh have "used r \<or> expiresAt r \<le> now"
      by (auto simp: consumable_def)
    from blocked [OF rin rh this] this show ?thesis
      by (auto simp: diagnose_def failure_def)
  qed
  from absent usedc expc never zero show ?thesis by blast
qed

theorem redeem_diagnosis_witness:
  "validateTokenFormat ''AbC123dEf456GhI7''
   \<and> distinct (map tokenHash
        [\<lparr> tokenHash = toy_digest ''AbC123dEf456GhI7'', userId = 7, createdAt = 1000,
            expiresAt = 5000, usedAt = None, used = False \<rparr>,
         \<lparr> tokenHash = toy_digest ''0123456789abcdef'', userId = 8, createdAt = 1000,
            expiresAt = 9000, usedAt = Some 2000, used = True \<rparr>])
   \<and> fst (verifyAndConsumeToken toy_digest False False 6000 ''AbC123dEf456GhI7''
        \<lparr> users = [7, 8],
          oneTimeTokens =
            [\<lparr> tokenHash = toy_digest ''AbC123dEf456GhI7'', userId = 7, createdAt = 1000,
                expiresAt = 5000, usedAt = None, used = False \<rparr>,
             \<lparr> tokenHash = toy_digest ''0123456789abcdef'', userId = 8, createdAt = 1000,
                expiresAt = 9000, usedAt = Some 2000, used = True \<rparr>],
          sessions = [] \<rparr>) = failure ''EXPIRED'' ''Token has expired''
   \<and> fst (verifyAndConsumeToken toy_digest False False 6000 ''0123456789abcdef''
        \<lparr> users = [7, 8],
          oneTimeTokens =
            [\<lparr> tokenHash = toy_digest ''AbC123dEf456GhI7'', userId = 7, createdAt = 1000,
                expiresAt = 5000, usedAt = None, used = False \<rparr>,
             \<lparr> tokenHash = toy_digest ''0123456789abcdef'', userId = 8, createdAt = 1000,
                expiresAt = 9000, usedAt = Some 2000, used = True \<rparr>],
          sessions = [] \<rparr>) = failure ''ALREADY_USED'' ''Token has already been used''
   \<and> fst (verifyAndConsumeToken toy_digest False False 6000 ''ZZZZZZZZZZZZZZZZ''
        \<lparr> users = [7, 8],
          oneTimeTokens =
            [\<lparr> tokenHash = toy_digest ''AbC123dEf456GhI7'', userId = 7, createdAt = 1000,
                expiresAt = 5000, usedAt = None, used = False \<rparr>,
             \<lparr> tokenHash = toy_digest ''0123456789abcdef'', userId = 8, createdAt = 1000,
                expiresAt = 9000, usedAt = Some 2000, used = True \<rparr>],
          sessions = [] \<rparr>) = failure ''NOT_FOUND'' ''Token not found or invalid''"
proof -
  let ?r1 = "\<lparr> tokenHash = toy_digest ''AbC123dEf456GhI7'', userId = 7, createdAt = 1000,
                expiresAt = 5000, usedAt = None, used = False \<rparr>"
  let ?r2 = "\<lparr> tokenHash = toy_digest ''0123456789abcdef'', userId = 8, createdAt = 1000,
                expiresAt = 9000, usedAt = Some 2000, used = True \<rparr>"
  let ?db = "\<lparr> users = [7, 8], oneTimeTokens = [?r1, ?r2], sessions = [] \<rparr>"
  have v1: "validateTokenFormat ''AbC123dEf456GhI7''"
    and v2: "validateTokenFormat ''0123456789abcdef''"
    and v3: "validateTokenFormat ''ZZZZZZZZZZZZZZZZ''"
    by (simp_all add: validateTokenFormat_alphabet urlSafeAlphabet_def)
  have d: "distinct (map tokenHash (oneTimeTokens ?db))"
    by (simp add: toy_digest_def)
  have "fst (verifyAndConsumeToken toy_digest False False 6000 ''AbC123dEf456GhI7'' ?db)
          = failure ''EXPIRED'' ''Token has expired''"
    using redeem_diagnosis [OF v1 d, of toy_digest 6000] by simp
  moreover
  have "fst (verifyAndConsumeToken toy_digest False False 6000 ''0123456789abcdef'' ?db)
          = failure ''ALREADY_USED'' ''Token has already been used''"
    using redeem_diagnosis [OF v2 d, of toy_digest 6000] by simp
  moreover
  have "fst (verifyAndConsumeToken toy_digest False False 6000 ''ZZZZZZZZZZZZZZZZ'' ?db)
          = failure ''NOT_FOUND'' ''Token not found or invalid''"
    using redeem_diagnosis [OF v3 d, of toy_digest 6000] by (simp add: toy_digest_def)
  ultimately show ?thesis using v1 d by simp
qed

text \<open>
  C9: for a row that is both used and past its expiry, \<open>checkTokenValidity\<close> and
  \<open>verifyAndConsumeToken\<close> both report \<open>ALREADY_USED\<close>, not \<open>EXPIRED\<close>: each reads the
  \<open>used\<close> flag before it compares \<open>expiresAt\<close>.
\<close>

theorem used_before_expired:
  assumes valid: "validateTokenFormat tok"
    and keys: "distinct (map tokenHash (oneTimeTokens db))"
    and row: "r \<in> set (oneTimeTokens db)" "tokenHash r = hashToken tok"
    and is_used: "used r" and is_expired: "expiresAt r \<le> now"
  shows "checkTokenValidity hashToken False now tok db
           = (failure ''ALREADY_USED'' ''Token has already been used'', db)
         \<and> verifyAndConsumeToken hashToken False False now tok db
           = (failure ''ALREADY_USED'' ''Token has already been used'', db)"
proof -
  let ?h = "hashToken tok"
  from select_by_hash_found [OF keys row(1)] row(2)
  have sel: "select_by_hash False ?h db = Inr [r]" by simp
  from valid sel is_used
  have check: "checkTokenValidity hashToken False now tok db
           = (failure ''ALREADY_USED'' ''Token has already been used'', db)"
    by (simp add: checkTokenValidity_def Let_def)
  from not_consumable_used [OF keys row(1), of now] is_used row(2)
  have none: "\<forall>x\<in>set (oneTimeTokens db). \<not> consumable ?h now x" by simp
  from verify_blocked [where hashToken = hashToken and tok = tok, OF valid none sel] is_used
  have "verifyAndConsumeToken hashToken False False now tok db
           = (failure ''ALREADY_USED'' ''Token has already been used'', db)"
    by (simp add: diagnose_def)
  with check show ?thesis by simp
qed

theorem used_before_expired_witness:
  "validateTokenFormat ''0123456789abcdef''
   \<and> distinct (map tokenHash
        [\<lparr> tokenHash = toy_digest ''0123456789abcdef'', userId = 8, createdAt = 1000,
            expiresAt = 5000, usedAt = Some 2000, used = True \<rparr>])
   \<and> (5000 :: int) \<le> 6000
   \<and> fst (checkTokenValidity toy_digest False 6000 ''0123456789abcdef''
        \<lparr> users = [8],
          oneTimeTokens =
            [\<lparr> tokenHash = toy_digest ''0123456789abcdef'', userId = 8, createdAt = 1000,
                expiresAt = 5000, usedAt = Some 2000, used = True \<rparr>],
          sessions = [] \<rparr>) = failure ''ALREADY_USED'' ''Token has already been used''
   \<and> fst (verifyAndConsumeToken toy_digest False False 6000 ''0123456789abcdef''
        \<lparr> users = [8],
          oneTimeTokens =
            [\<lparr> tokenHash = toy_digest ''0123456789abcdef'', userId = 8, createdAt = 1000,
                expiresAt = 5000, usedAt = Some 2000, used = True \<rparr>],
          sessions = [] \<rparr>) = failure ''ALREADY_USED'' ''Token has already been used''"
proof -
  let ?r = "\<lparr> tokenHash = toy_digest ''0123456789abcdef'', userId = 8, createdAt = 1000,
                expiresAt = 5000, usedAt = Some 2000, used = True \<rparr>"
  let ?db = "\<lparr> users = [8], oneTimeTokens = [?r], sessions = [] \<rparr>"
  have v: "validateTokenFormat ''0123456789abcdef''"
    by (simp add: validateTokenFormat_alphabet urlSafeAlphabet_def)
  have d: "distinct (map tokenHash (oneTimeTokens ?db))" by simp
  have m: "?r \<in> set (oneTimeTokens ?db)" by simp
  have k: "tokenHash ?r = toy_digest ''0123456789abcdef''" by simp
  have u: "used ?r" by simp
  have e: "expiresAt ?r \<le> 6000" by simp
  from used_before_expired [where hashToken = toy_digest, OF v d m k u e] v
  show ?thesis by simp
qed

lemma generateTokenForUser_Inr:
  assumes "generateTokenForUser hashToken randomBytes dateNow uid ttl = Inr g"
  shows "validateTokenFormat (token g) \<and> hash g = hashToken (token g) \<and> token_userId g = uid
         \<and> token_expiresAt g = createTokenExpiration dateNow ttl"
proof (cases "generateOneTimeToken randomBytes")
  case (Inl e)
  with assms show ?thesis by (simp add: generateTokenForUser_def)
next
  case (Inr t)
  from generateOneTimeToken_Inr [OF Inr] have "validateTokenFormat t" by blast
  with assms Inr show ?thesis by (auto simp: generateTokenForUser_def)
qed

lemma checkTokenValidity_db: "snd (checkTokenValidity hashToken fault now tok db) = db"
  by (simp add: checkTokenValidity_def Let_def split: sum.splits list.splits)

lemma select_by_hash_member:
  "select_by_hash fault h db = Inr (r # rest) \<Longrightarrow> r \<in> set (oneTimeTokens db)"
proof -
  assume a: "select_by_hash fault h db = Inr (r # rest)"
  then have "r \<in> set (take 1 (filter (\<lambda>x. tokenHash x = h) (oneTimeTokens db)))"
    by (auto simp: select_by_hash_def split: if_splits)
  then have "r \<in> set (filter (\<lambda>x. tokenHash x = h) (oneTimeTokens db))"
    by (rule in_set_takeD)
  then show ?thesis by simp
qed

lemma select_by_hash_key:
  "select_by_hash fault h db = Inr (r # rest) \<Longrightarrow> tokenHash r = h"
proof -
  assume a: "select_by_hash fault h db = Inr (r # rest)"
  then have "r \<in> set (take 1 (filter (\<lambda>x. tokenHash x = h) (oneTimeTokens db)))"
    by (auto simp: select_by_hash_def split: if_splits)
  then have "r \<in> set (filter (\<lambda>x. tokenHash x = h) (oneTimeTokens db))"
    by (rule in_set_takeD)
  then show ?thesis by simp
qed

lemma checkTokenValidity_same_side:
  assumes "\<forall>r\<in>set (oneTimeTokens db). tokenHash r = hashToken tok \<and> \<not> used r \<longrightarrow>
             (expiresAt r \<le> now1) = (expiresAt r \<le> now2)"
  shows "checkTokenValidity hashToken fault now2 tok db
           = checkTokenValidity hashToken fault now1 tok db"
proof (cases "select_by_hash fault (hashToken tok) db")
  case (Inl e)
  then show ?thesis by (simp add: checkTokenValidity_def Let_def)
next
  case (Inr rows)
  show ?thesis
  proof (cases rows)
    case Nil
    with Inr show ?thesis by (simp add: checkTokenValidity_def Let_def)
  next
    case (Cons r rest)
    with Inr have rin: "r \<in> set (oneTimeTokens db)" and rh: "tokenHash r = hashToken tok"
      by (simp_all add: select_by_hash_member select_by_hash_key)
    show ?thesis
    proof (cases "used r")
      case True
      with Inr Cons show ?thesis by (simp add: checkTokenValidity_def Let_def)
    next
      case False
      with assms rin rh have "(expiresAt r \<le> now1) = (expiresAt r \<le> now2)" by blast
      with Inr Cons show ?thesis by (simp add: checkTokenValidity_def Let_def)
    qed
  qed
qed

lemma createTokenExpiration_sum:
  "createTokenExpiration dateNow ttl
     = dateNow + (case ttl of None \<Rightarrow> 3600000 | Some t \<Rightarrow> t)"
  by (simp add: createTokenExpiration_def DEFAULT_TOKEN_CONFIG_def split: option.splits)

text \<open>
  C5: a token is issued by \<open>generateTokenForUser\<close> for a user at the instant \<open>dateNow\<close>,
  with the default time to live of one hour (\<open>ttl = None\<close>) or with a custom one, and is
  stored. \<open>checkTokenValidity\<close> on the raw token succeeds with that user, and leaves the
  tables as they are, whenever it is called before \<open>dateNow\<close> plus the time to live; from
  that instant on it reports \<open>EXPIRED\<close>. So a check at the very instant of issue succeeds
  for the default time to live, and for every positive one. The row is unused before and
  after. \<open>checkTokenValidity\<close> changes no table on any input, and a second call gives the
  result of the first unless the expiry of the token's own unused row lies between the two
  instants.
\<close>

theorem issue_then_check:
  assumes issued: "generateTokenForUser hashToken randomBytes dateNow uid ttl = Inr g"
    and stored: "storeToken fault dbNow (hash g) (token_userId g) (token_expiresAt g) db0
                   = (True, db1)"
  shows "(now < dateNow + (case ttl of None \<Rightarrow> 3600000 | Some t \<Rightarrow> t) \<longrightarrow>
            checkTokenValidity hashToken False now (token g) db1 = (succeeded uid, db1))
       \<and> (dateNow + (case ttl of None \<Rightarrow> 3600000 | Some t \<Rightarrow> t) \<le> now \<longrightarrow>
            checkTokenValidity hashToken False now (token g) db1
              = (failure ''EXPIRED'' ''Token has expired'', db1))
       \<and> (ttl = None \<longrightarrow>
            checkTokenValidity hashToken False dateNow (token g) db1 = (succeeded uid, db1))
       \<and> (0 < (case ttl of None \<Rightarrow> 3600000 | Some t \<Rightarrow> t) \<longrightarrow>
            checkTokenValidity hashToken False dateNow (token g) db1 = (succeeded uid, db1))
       \<and> (\<forall>r\<in>set (oneTimeTokens db1). tokenHash r = hash g \<longrightarrow> used r = False)
       \<and> snd (checkTokenValidity hashToken anyFault anyNow anyToken anyDb) = anyDb
       \<and> ((\<forall>r\<in>set (oneTimeTokens anyDb). tokenHash r = hashToken anyToken \<and> \<not> used r \<longrightarrow>
              (expiresAt r \<le> anyNow) = (expiresAt r \<le> laterNow)) \<longrightarrow>
            checkTokenValidity hashToken anyFault laterNow anyToken
              (snd (checkTokenValidity hashToken anyFault anyNow anyToken anyDb))
            = checkTokenValidity hashToken anyFault anyNow anyToken anyDb)"
proof -
  let ?timeout = "case ttl of None \<Rightarrow> 3600000 | Some t \<Rightarrow> t"
  let ?r = "\<lparr> tokenHash = hash g, userId = token_userId g, createdAt = dbNow,
              expiresAt = token_expiresAt g, usedAt = None, used = False \<rparr>"
  from generateTokenForUser_Inr [OF issued]
  have valid: "validateTokenFormat (token g)" and h: "hash g = hashToken (token g)"
    and u: "token_userId g = uid"
    and "token_expiresAt g = createTokenExpiration dateNow ttl"
    by simp_all
  then have expiry: "token_expiresAt g = dateNow + ?timeout"
    by (simp add: createTokenExpiration_sum)
  from storeToken_True [OF stored]
  have rows1: "oneTimeTokens db1 = oneTimeTokens db0 @ [?r]"
    and absent: "hash g \<notin> tokenHash ` set (oneTimeTokens db0)"
    by simp_all
  from absent have "filter (\<lambda>x. tokenHash x = hash g) (oneTimeTokens db1) = [?r]"
    unfolding rows1 by (rule filter_key_appended) simp
  then have sel: "select_by_hash False (hashToken (token g)) db1 = Inr [?r]"
    by (simp add: select_by_hash_def h)
  have before: "checkTokenValidity hashToken False t (token g) db1 = (succeeded uid, db1)"
    if "t < dateNow + ?timeout" for t
    using valid sel u that by (simp add: checkTokenValidity_def Let_def expiry)
  have after: "checkTokenValidity hashToken False t (token g) db1
                 = (failure ''EXPIRED'' ''Token has expired'', db1)"
    if "dateNow + ?timeout \<le> t" for t
    using valid sel that by (simp add: checkTokenValidity_def Let_def expiry)
  have default: "checkTokenValidity hashToken False dateNow (token g) db1 = (succeeded uid, db1)"
    if "ttl = None"
    using before [of dateNow] that by simp
  have positive: "checkTokenValidity hashToken False dateNow (token g) db1 = (succeeded uid, db1)"
    if "0 < ?timeout"
    using before [of dateNow] that by simp
  have unused: "\<forall>r\<in>set (oneTimeTokens db1). tokenHash r = hash g \<longrightarrow> used r = False"
  proof (intro ballI impI)
    fix r assume rin: "r \<in> set (oneTimeTokens db1)" and rh: "tokenHash r = hash g"
    from rin rows1 have "r \<in> set (oneTimeTokens db0) \<or> r = ?r" by auto
    then show "used r = False"
    proof
      assume "r \<in> set (oneTimeTokens db0)"
      then have "tokenHash r \<in> tokenHash ` set (oneTimeTokens db0)" by (rule imageI)
      with rh absent show ?thesis by simp
    next
      assume "r = ?r"
      then show ?thesis by simp
    qed
  qed
  have pure: "snd (checkTokenValidity hashToken anyFault anyNow anyToken anyDb) = anyDb"
    by (rule checkTokenValidity_db)
  have again: "checkTokenValidity hashToken anyFault laterNow anyToken
              (snd (checkTokenValidity hashToken anyFault anyNow anyToken anyDb))
            = checkTokenValidity hashToken anyFault anyNow anyToken anyDb"
    if "\<forall>r\<in>set (oneTimeTokens anyDb). tokenHash r = hashToken anyToken \<and> \<not> used r \<longrightarrow>
              (expiresAt r \<le> anyNow) = (expiresAt r \<le> laterNow)"
    using checkTokenValidity_same_side [where hashToken = hashToken and tok = anyToken, OF that]
    by (simp add: checkTokenValidity_db)
  from before [of now] after [of now] default positive unused pure again
  show ?thesis by (intro conjI impI) blast+
qed

theorem issue_then_check_witness:
  "generateTokenForUser toy_digest [0, 0, 0, 255, 255, 255, 1, 2, 3, 4, 5, 6] 1000 7 None
     = Inr \<lparr> token = ''AAAA____AQIDBAUG'', hash = toy_digest ''AAAA____AQIDBAUG'',
             token_userId = 7, token_expiresAt = 3601000 \<rparr>
   \<and> storeToken False 1000 (toy_digest ''AAAA____AQIDBAUG'') 7 3601000
        \<lparr> users = [7], oneTimeTokens = [], sessions = [] \<rparr>
      = (True, \<lparr> users = [7],
                 oneTimeTokens = [\<lparr> tokenHash = toy_digest ''AAAA____AQIDBAUG'', userId = 7,
                    createdAt = 1000, expiresAt = 3601000, usedAt = None, used = False \<rparr>],
                 sessions = [] \<rparr>)
   \<and> checkTokenValidity toy_digest False 1000 ''AAAA____AQIDBAUG''
        \<lparr> users = [7],
          oneTimeTokens = [\<lparr> tokenHash = toy_digest ''AAAA____AQIDBAUG'', userId = 7,
             createdAt = 1000, expiresAt = 3601000, usedAt = None, used = False \<rparr>],
          sessions = [] \<rparr>
      = (succeeded 7,
         \<lparr> users = [7],
           oneTimeTokens = [\<lparr> tokenHash = toy_digest ''AAAA____AQIDBAUG'', userId = 7,
              createdAt = 1000, expiresAt = 3601000, usedAt = None, used = False \<rparr>],
           sessions = [] \<rparr>)
   \<and> (3600999 :: int) < 1000 + 3600000
   \<and> checkTokenValidity toy_digest False 3600999 ''AAAA____AQIDBAUG''
        \<lparr> users = [7],
          oneTimeTokens = [\<lparr> tokenHash = toy_digest ''AAAA____AQIDBAUG'', userId = 7,
             createdAt = 1000, expiresAt = 3601000, usedAt = None, used = False \<rparr>],
          sessions = [] \<rparr>
      = (succeeded 7,
         \<lparr> users = [7],
           oneTimeTokens = [\<lparr> tokenHash = toy_digest ''AAAA____AQIDBAUG'', userId = 7,
              createdAt = 1000, expiresAt = 3601000, usedAt = None, used = False \<rparr>],
           sessions = [] \<rparr>)
   \<and> (1000 :: int) + 3600000 \<le> 3601000
   \<and> checkTokenValidity toy_digest False 3601000 ''AAAA____AQIDBAUG''
        \<lparr> users = [7],
          oneTimeTokens = [\<lparr> tokenHash = toy_digest ''AAAA____AQIDBAUG'', userId = 7,
             createdAt = 1000, expiresAt = 3601000, usedAt = None, used = False \<rparr>],
          sessions = [] \<rparr>
      = (failure ''EXPIRED'' ''Token has expired'',
         \<lparr> users = [7],
           oneTimeTokens = [\<lparr> tokenHash = toy_digest ''AAAA____AQIDBAUG'', userId = 7,
              createdAt = 1000, expiresAt = 3601000, usedAt = None, used = False \<rparr>],
           sessions = [] \<rparr>)"
proof -
  let ?g = "\<lparr> token = ''AAAA____AQIDBAUG'', hash = toy_digest ''AAAA____AQIDBAUG'',
             token_userId = 7, token_expiresAt = 3601000 \<rparr>"
  let ?empty = "\<lparr> users = [7], oneTimeTokens = [], sessions = [] \<rparr>"
  let ?stored = "\<lparr> users = [7],
           oneTimeTokens = [\<lparr> tokenHash = toy_digest ''AAAA____AQIDBAUG'', userId = 7,
              createdAt = 1000, expiresAt = 3601000, usedAt = None, used = False \<rparr>],
           sessions = [] \<rparr>"
  have h1: "generateTokenForUser toy_digest [0, 0, 0, 255, 255, 255, 1, 2, 3, 4, 5, 6] 1000 7 None
              = Inr ?g"
    by (simp add: generateTokenForUser_def generateOneTimeToken_def DEFAULT_TOKEN_CONFIG_def
        Let_def sextet_def urlSafeAlphabet_def createTokenExpiration_def)
  have h2: "storeToken False 1000 (hash ?g) (token_userId ?g) (token_expiresAt ?g) ?empty
              = (True, ?stored)"
    by (simp add: storeToken_def insert_token_def length_toy_digest)
  have early: "(3600999 :: int) < 1000 + 3600000" by simp
  have late: "(1000 :: int) + 3600000 \<le> 3601000" by simp
  from issue_then_check [OF h1 h2]
  have c0: "checkTokenValidity toy_digest False 1000 (token ?g) ?stored = (succeeded 7, ?stored)"
    by blast
  from issue_then_check [OF h1 h2, where now = 3600999] early
  have c1: "checkTokenValidity toy_digest False 3600999 (token ?g) ?stored
              = (succeeded 7, ?stored)"
    by simp
  from issue_then_check [OF h1 h2, where now = 3601000] late
  have c2: "checkTokenValidity toy_digest False 3601000 (token ?g) ?stored
              = (failure ''EXPIRED'' ''Token has expired'', ?stored)"
    by simp
  from h1 h2 c0 c1 c2 show ?thesis by simp
qed

lemma diagnose_code: "\<not> success (diagnose now rows) \<and> error (diagnose now rows) \<in> Some ` errorCodes"
  by (simp add: diagnose_def failure_def errorCodes_def split: list.splits)

lemma verify_result_shape:
  "(success (fst (verifyAndConsumeToken hashToken fu fs now tok db))
      \<and> error (fst (verifyAndConsumeToken hashToken fu fs now tok db)) = None)
   \<or> (\<not> success (fst (verifyAndConsumeToken hashToken fu fs now tok db))
      \<and> error (fst (verifyAndConsumeToken hashToken fu fs now tok db)) \<in> Some ` errorCodes)"
proof (cases "validateTokenFormat tok")
  case False
  then show ?thesis
    by (simp add: verifyAndConsumeToken_def failure_def errorCodes_def)
next
  case True
  show ?thesis
  proof (cases "update_consume fu (hashToken tok) now db")
    case (Inl e)
    with True show ?thesis
      by (simp add: verifyAndConsumeToken_def Let_def failure_def errorCodes_def)
  next
    case (Inr p)
    obtain result db' where p: "p = (result, db')" by (cases p)
    show ?thesis
    proof (cases result)
      case (Cons c rest)
      with True Inr p show ?thesis
        by (simp add: verifyAndConsumeToken_def Let_def succeeded_def)
    next
      case Nil
      show ?thesis
      proof (cases "select_by_hash fs (hashToken tok) db'")
        case (Inl e)
        with True Inr p Nil show ?thesis
          by (simp add: verifyAndConsumeToken_def Let_def failure_def errorCodes_def)
      next
        case (Inr existing)
        with True \<open>update_consume fu (hashToken tok) now db = Inr p\<close> p Nil
        have "fst (verifyAndConsumeToken hashToken fu fs now tok db) = diagnose now existing"
          by (simp add: verifyAndConsumeToken_def Let_def)
        with diagnose_code [of now existing] show ?thesis by simp
      qed
    qed
  qed
qed

lemma check_result_shape:
  "(success (fst (checkTokenValidity hashToken fs now tok db))
      \<and> error (fst (checkTokenValidity hashToken fs now tok db)) = None)
   \<or> (\<not> success (fst (checkTokenValidity hashToken fs now tok db))
      \<and> error (fst (checkTokenValidity hashToken fs now tok db)) \<in> Some ` errorCodes)"
  by (simp add: checkTokenValidity_def Let_def failure_def succeeded_def errorCodes_def
      split: sum.splits list.splits)

text \<open>
  C4, as the specification states it, fails: a failing statement is reported under the
  code \<open>DATABASE_ERROR\<close>, which is not one of \<open>INVALID_FORMAT\<close>, \<open>NOT_FOUND\<close>,
  \<open>EXPIRED\<close>, \<open>ALREADY_USED\<close>, \<open>STORAGE_ERROR\<close>.
\<close>

theorem storage_error_code_counterexample:
  "error (fst (verifyAndConsumeToken toy_digest True False 1000 ''AbC123dEf456GhI7''
       \<lparr> users = [], oneTimeTokens = [], sessions = [] \<rparr>)) = Some ''DATABASE_ERROR''
   \<and> error (fst (checkTokenValidity toy_digest True 1000 ''AbC123dEf456GhI7''
       \<lparr> users = [], oneTimeTokens = [], sessions = [] \<rparr>)) = Some ''DATABASE_ERROR''
   \<and> ''DATABASE_ERROR'' \<notin> {''INVALID_FORMAT'', ''NOT_FOUND'', ''EXPIRED'', ''ALREADY_USED'',
         ''STORAGE_ERROR''}"
  by (simp add: verifyAndConsumeToken_def checkTokenValidity_def update_consume_def
      select_by_hash_def failure_def example_token_valid)

text \<open>
  C4, amended: a result of \<open>verifyAndConsumeToken\<close> or \<open>checkTokenValidity\<close> is either a
  success without an error code or a failure whose code is one of \<open>INVALID_FORMAT\<close>,
  \<open>NOT_FOUND\<close>, \<open>EXPIRED\<close>, \<open>ALREADY_USED\<close>, \<open>DATABASE_ERROR\<close>. A statement that fails
  (the update, the disambiguating select after an update that matched no row, the select
  of the validity check) is caught and reported as \<open>DATABASE_ERROR\<close>. An insert that
  throws, whether the statement fails or a constraint is violated (the hash is longer than
  its column, a row with the hash exists, there is no user with the id), makes
  \<open>storeToken\<close> return false, and in no other case does it return false; the tables are
  as before.
\<close>

theorem error_taxonomy:
  "((success (fst (verifyAndConsumeToken hashToken faultUpdate faultSelect now tok db))
       \<and> error (fst (verifyAndConsumeToken hashToken faultUpdate faultSelect now tok db)) = None)
     \<or> (\<not> success (fst (verifyAndConsumeToken hashToken faultUpdate faultSelect now tok db))
       \<and> error (fst (verifyAndConsumeToken hashToken faultUpdate faultSelect now tok db))
           \<in> Some ` errorCodes))
   \<and> ((success (fst (checkTokenValidity hashToken faultSelect now tok db))
       \<and> error (fst (checkTokenValidity hashToken faultSelect now tok db)) = None)
     \<or> (\<not> success (fst (checkTokenValidity hashToken faultSelect now tok db))
       \<and> error (fst (checkTokenValidity hashToken faultSelect now tok db)) \<in> Some ` errorCodes))
   \<and> (validateTokenFormat tok \<longrightarrow>
         verifyAndConsumeToken hashToken True faultSelect now tok db
           = (failure ''DATABASE_ERROR'' ''Database error during token verification'', db))
   \<and> (validateTokenFormat tok
         \<and> (\<forall>r\<in>set (oneTimeTokens db). \<not> consumable (hashToken tok) now r) \<longrightarrow>
         verifyAndConsumeToken hashToken False True now tok db
           = (failure ''DATABASE_ERROR'' ''Database error during token verification'', db))
   \<and> (validateTokenFormat tok \<longrightarrow>
         checkTokenValidity hashToken True now tok db
           = (failure ''DATABASE_ERROR'' ''Database error during token validity check'', db))
   \<and> storeToken True dbNow h uid expires db = (False, db)
   \<and> (fault \<or> 64 < length h \<or> h \<in> tokenHash ` set (oneTimeTokens db)
          \<or> uid \<notin> set (users db) \<longrightarrow>
         storeToken fault dbNow h uid expires db = (False, db))
   \<and> (insert_token fault dbNow h uid expires db = Inl QueryFailed \<longrightarrow>
         storeToken fault dbNow h uid expires db = (False, db))
   \<and> fst (storeToken fault dbNow h uid expires db)
         = (\<not> (fault \<or> 64 < length h \<or> h \<in> tokenHash ` set (oneTimeTokens db)
                \<or> uid \<notin> set (users db)))"
proof -
  have a: "validateTokenFormat tok \<longrightarrow>
         verifyAndConsumeToken hashToken True faultSelect now tok db
           = (failure ''DATABASE_ERROR'' ''Database error during token verification'', db)"
    by (simp add: verifyAndConsumeToken_def update_consume_def Let_def)
  have b: "validateTokenFormat tok
         \<and> (\<forall>r\<in>set (oneTimeTokens db). \<not> consumable (hashToken tok) now r) \<longrightarrow>
         verifyAndConsumeToken hashToken False True now tok db
           = (failure ''DATABASE_ERROR'' ''Database error during token verification'', db)"
    by (auto simp: verifyAndConsumeToken_def update_consume_no_match select_by_hash_def Let_def)
  have c: "validateTokenFormat tok \<longrightarrow>
         checkTokenValidity hashToken True now tok db
           = (failure ''DATABASE_ERROR'' ''Database error during token validity check'', db)"
    by (simp add: checkTokenValidity_def select_by_hash_def Let_def)
  have d: "storeToken True dbNow h uid expires db = (False, db)"
    by (simp add: storeToken_def insert_token_def)
  have e: "fault \<or> 64 < length h \<or> h \<in> tokenHash ` set (oneTimeTokens db)
          \<or> uid \<notin> set (users db) \<longrightarrow>
         storeToken fault dbNow h uid expires db = (False, db)"
    by (auto simp: storeToken_def insert_token_def)
  have f: "insert_token fault dbNow h uid expires db = Inl QueryFailed \<longrightarrow>
         storeToken fault dbNow h uid expires db = (False, db)"
    by (simp add: storeToken_def)
  have g: "fst (storeToken fault dbNow h uid expires db)
         = (\<not> (fault \<or> 64 < length h \<or> h \<in> tokenHash ` set (oneTimeTokens db)
                \<or> uid \<notin> set (users db)))"
    by (auto simp: storeToken_def insert_token_def)
  note shape = verify_result_shape [of hashToken faultUpdate faultSelect now tok db]
    check_result_shape [of hashToken faultSelect now tok db]
  from shape a b c d e f g show ?thesis by (intro conjI)
qed

theorem error_taxonomy_witness:
  "validateTokenFormat ''AbC123dEf456GhI7''
   \<and> verifyAndConsumeToken toy_digest True False 1000 ''AbC123dEf456GhI7''
       \<lparr> users = [], oneTimeTokens = [], sessions = [] \<rparr>
      = (failure ''DATABASE_ERROR'' ''Database error during token verification'',
         \<lparr> users = [], oneTimeTokens = [], sessions = [] \<rparr>)
   \<and> verifyAndConsumeToken toy_digest False True 1000 ''AbC123dEf456GhI7''
       \<lparr> users = [], oneTimeTokens = [], sessions = [] \<rparr>
      = (failure ''DATABASE_ERROR'' ''Database error during token verification'',
         \<lparr> users = [], oneTimeTokens = [], sessions = [] \<rparr>)
   \<and> checkTokenValidity toy_digest True 1000 ''AbC123dEf456GhI7''
       \<lparr> users = [], oneTimeTokens = [], sessions = [] \<rparr>
      = (failure ''DATABASE_ERROR'' ''Database error during token validity check'',
         \<lparr> users = [], oneTimeTokens = [], sessions = [] \<rparr>)
   \<and> error (fst (verifyAndConsumeToken toy_digest False False 1000 ''invalid+format/token''
       \<lparr> users = [], oneTimeTokens = [], sessions = [] \<rparr>)) \<in> Some ` errorCodes
   \<and> storeToken True 1000 (toy_digest ''AbC123dEf456GhI7'') 7 5000
       \<lparr> users = [7], oneTimeTokens = [], sessions = [] \<rparr>
      = (False, \<lparr> users = [7], oneTimeTokens = [], sessions = [] \<rparr>)
   \<and> storeToken False 1000 (toy_digest ''AbC123dEf456GhI7'') 999999 5000
       \<lparr> users = [7], oneTimeTokens = [], sessions = [] \<rparr>
      = (False, \<lparr> users = [7], oneTimeTokens = [], sessions = [] \<rparr>)"
proof -
  let ?db = "\<lparr> users = [], oneTimeTokens = [], sessions = [] \<rparr>"
  have v: "validateTokenFormat ''AbC123dEf456GhI7''" by (rule example_token_valid)
  have n: "\<forall>r\<in>set (oneTimeTokens ?db). \<not> consumable (toy_digest ''AbC123dEf456GhI7'') 1000 r"
    by simp
  have f: "\<not> success (fst (verifyAndConsumeToken toy_digest False False 1000
             ''invalid+format/token'' ?db))"
    by (simp add: verifyAndConsumeToken_def validateTokenFormat_alphabet failure_def)
  from error_taxonomy [where hashToken = toy_digest and faultUpdate = False
      and faultSelect = False and now = 1000 and tok = "''invalid+format/token''" and db = ?db] f
  have bad: "error (fst (verifyAndConsumeToken toy_digest False False 1000
               ''invalid+format/token'' ?db)) \<in> Some ` errorCodes"
    by blast
  from error_taxonomy [where hashToken = toy_digest and faultSelect = True and now = 1000
      and tok = "''AbC123dEf456GhI7''" and db = ?db] v n
  have a: "verifyAndConsumeToken toy_digest True True 1000 ''AbC123dEf456GhI7'' ?db
      = (failure ''DATABASE_ERROR'' ''Database error during token verification'', ?db)"
    and b: "verifyAndConsumeToken toy_digest False True 1000 ''AbC123dEf456GhI7'' ?db
      = (failure ''DATABASE_ERROR'' ''Database error during token verification'', ?db)"
    and c: "checkTokenValidity toy_digest True 1000 ''AbC123dEf456GhI7'' ?db
      = (failure ''DATABASE_ERROR'' ''Database error during token validity check'', ?db)"
    by blast+
  from error_taxonomy [where hashToken = toy_digest and faultSelect = False and now = 1000
      and tok = "''AbC123dEf456GhI7''" and db = ?db] v
  have a': "verifyAndConsumeToken toy_digest True False 1000 ''AbC123dEf456GhI7'' ?db
      = (failure ''DATABASE_ERROR'' ''Database error during token verification'', ?db)"
    by blast
  from error_taxonomy
    [where db = "\<lparr> users = [7], oneTimeTokens = [], sessions = [] \<rparr>" and dbNow = 1000
       and h = "toy_digest ''AbC123dEf456GhI7''" and uid = 7 and expires = 5000]
  have d: "storeToken True 1000 (toy_digest ''AbC123dEf456GhI7'') 7 5000
       \<lparr> users = [7], oneTimeTokens = [], sessions = [] \<rparr>
      = (False, \<lparr> users = [7], oneTimeTokens = [], sessions = [] \<rparr>)"
    by blast
  have unknown: "(999999 :: int) \<notin> set (users \<lparr> users = [7], oneTimeTokens = [], sessions = [] \<rparr>)"
    by simp
  from error_taxonomy
    [where db = "\<lparr> users = [7], oneTimeTokens = [], sessions = [] \<rparr>" and dbNow = 1000
       and h = "toy_digest ''AbC123dEf456GhI7''" and uid = 999999 and expires = 5000
       and fault = False] unknown
  have e: "storeToken False 1000 (toy_digest ''AbC123dEf456GhI7'') 999999 5000
       \<lparr> users = [7], oneTimeTokens = [], sessions = [] \<rparr>
      = (False, \<lparr> users = [7], oneTimeTokens = [], sessions = [] \<rparr>)"
    by blast
  from v a' b c bad d e show ?thesis by blast
qed


lemma count_text_zero: "count_text 0 = ''0''"
  by (simp add: count_text.simps digit_char_def)

lemma parseInt10_zero: "parseInt10 ''0'' = Some 0"
  by (simp add: parseInt10_def isWhiteSpace_def isDecimalDigit_def digits_value_def)

lemma getTokenStats_no_rows:
  assumes "\<forall>r\<in>set (oneTimeTokens db). userId r \<noteq> uid"
  shows "getTokenStats False uid currentTimestamp db
           = \<lparr> total = Some 0, used_count = Some 0, expired = Some 0, active = Some 0 \<rparr>"
proof -
  from assms have "filter (\<lambda>r. userId r = uid) (oneTimeTokens db) = []"
    by (simp add: filter_empty_conv)
  then show ?thesis
    by (simp add: getTokenStats_def stats_query_def count_text_zero parseInt10_zero)
qed

text \<open>
  C10: when its query fails \<open>getTokenStats\<close> returns zero for each of the four counts and
  does not throw, and that is the very result it returns for a user who has no row.
\<close>

theorem getTokenStats_failure_zero:
  "getTokenStats True uid currentTimestamp db
     = \<lparr> total = Some 0, used_count = Some 0, expired = Some 0, active = Some 0 \<rparr>
   \<and> ((\<forall>r\<in>set (oneTimeTokens db'). userId r \<noteq> uid') \<longrightarrow>
        getTokenStats False uid' currentTimestamp' db'
          = getTokenStats True uid currentTimestamp db)"
proof -
  have failed: "getTokenStats True uid currentTimestamp db
     = \<lparr> total = Some 0, used_count = Some 0, expired = Some 0, active = Some 0 \<rparr>"
    by (simp add: getTokenStats_def stats_query_def)
  with getTokenStats_no_rows [of db' uid' currentTimestamp'] show ?thesis by simp
qed

theorem getTokenStats_failure_zero_witness:
  "getTokenStats True 7 1000
     \<lparr> users = [7],
       oneTimeTokens = [\<lparr> tokenHash = ''a'', userId = 7, createdAt = 10, expiresAt = 5000,
                          usedAt = None, used = False \<rparr>],
       sessions = [] \<rparr>
     = \<lparr> total = Some 0, used_count = Some 0, expired = Some 0, active = Some 0 \<rparr>
   \<and> getTokenStats False 99999 1000
     \<lparr> users = [7],
       oneTimeTokens = [\<lparr> tokenHash = ''a'', userId = 7, createdAt = 10, expiresAt = 5000,
                          usedAt = None, used = False \<rparr>],
       sessions = [] \<rparr>
     = \<lparr> total = Some 0, used_count = Some 0, expired = Some 0, active = Some 0 \<rparr>"
proof -
  let ?db = "\<lparr> users = [7],
       oneTimeTokens = [\<lparr> tokenHash = ''a'', userId = 7, createdAt = 10, expiresAt = 5000,
                          usedAt = None, used = False \<rparr>],
       sessions = [] \<rparr>"
  have h: "\<forall>r\<in>set (oneTimeTokens ?db). userId r \<noteq> 99999" by simp
  from getTokenStats_failure_zero [of 7 1000 ?db ?db 99999 1000] h
  show ?thesis by simp
qed

lemma or_zero_rowCount: "or_zero (rowCount result) = 0"
  by (simp add: or_zero_def rowCount_def)

lemma sweep_without_failure:
  "cleanupExpiredTokensAndSessions False False False now db
      = (Inr \<lparr> expiredTokens = 0, expiredSessions = 0, oldUsedTokens = 0 \<rparr>,
         db\<lparr>oneTimeTokens := filter
               (\<lambda>r. \<not> (case usedAt r of None \<Rightarrow> False | Some t \<Rightarrow> t < now - 2592000000))
               (filter (\<lambda>r. \<not> expiresAt r < now) (oneTimeTokens db)),
            sessions := filter (\<lambda>r. \<not> session_expiresAt r < now) (sessions db)\<rparr>)"
  by (simp add: cleanupExpiredTokensAndSessions_def delete_tokens_def delete_sessions_def
      Let_def or_zero_rowCount)

text \<open>
  C8, as the specification states it, fails: when the delete of the expired tokens fails,
  the sweep ends with the error, and the expired session and the token used more than 30
  days ago are still there. The delete of the expired sessions was not run: the same sweep
  removes the session when the first delete does not fail.
\<close>

theorem sweep_independent_counterexample:
  "cleanupExpiredTokensAndSessions True False False 3000000000
     \<lparr> users = [7],
       oneTimeTokens = [\<lparr> tokenHash = ''a'', userId = 7, createdAt = 10,
                          expiresAt = 4000000000, usedAt = Some 100, used = True \<rparr>],
       sessions = [\<lparr> sessionId = ''s'', session_userId = 7, session_createdAt = 10,
                     session_expiresAt = 1000, lastSeenAt = 20 \<rparr>] \<rparr>
   = (Inl QueryFailed,
      \<lparr> users = [7],
        oneTimeTokens = [\<lparr> tokenHash = ''a'', userId = 7, createdAt = 10,
                          expiresAt = 4000000000, usedAt = Some 100, used = True \<rparr>],
        sessions = [\<lparr> sessionId = ''s'', session_userId = 7, session_createdAt = 10,
                     session_expiresAt = 1000, lastSeenAt = 20 \<rparr>] \<rparr>)
   \<and> cleanupExpiredTokensAndSessions False False True 3000000000
     \<lparr> users = [7],
       oneTimeTokens = [\<lparr> tokenHash = ''a'', userId = 7, createdAt = 10,
                          expiresAt = 4000000000, usedAt = Some 100, used = True \<rparr>],
       sessions = [\<lparr> sessionId = ''s'', session_userId = 7, session_createdAt = 10,
                     session_expiresAt = 1000, lastSeenAt = 20 \<rparr>] \<rparr>
   = (Inl QueryFailed,
      \<lparr> users = [7],
        oneTimeTokens = [\<lparr> tokenHash = ''a'', userId = 7, createdAt = 10,
                          expiresAt = 4000000000, usedAt = Some 100, used = True \<rparr>],
        sessions = [] \<rparr>)"
  by (simp add: cleanupExpiredTokensAndSessions_def delete_tokens_def delete_sessions_def)

text \<open>
  C8, amended: the sweep runs its three deletes in order (expired tokens, expired
  sessions, tokens used more than 30 days ago). A delete that fails ends the sweep with
  the error, rethrown to the caller: the deletes after it are not run and the deletes
  before it stay applied.
\<close>

theorem sweep_stops_at_failure:
  "cleanupExpiredTokensAndSessions True faultSessions faultOldUsed now db = (Inl QueryFailed, db)
   \<and> cleanupExpiredTokensAndSessions False True faultOldUsed now db
      = (Inl QueryFailed,
         db\<lparr>oneTimeTokens := filter (\<lambda>r. \<not> expiresAt r < now) (oneTimeTokens db)\<rparr>)
   \<and> cleanupExpiredTokensAndSessions False False True now db
      = (Inl QueryFailed,
         db\<lparr>oneTimeTokens := filter (\<lambda>r. \<not> expiresAt r < now) (oneTimeTokens db),
            sessions := filter (\<lambda>r. \<not> session_expiresAt r < now) (sessions db)\<rparr>)"
  by (simp add: cleanupExpiredTokensAndSessions_def delete_tokens_def delete_sessions_def
      Let_def)

theorem sweep_stops_at_failure_witness:
  "cleanupExpiredTokensAndSessions False True False 3000000000
     \<lparr> users = [7],
       oneTimeTokens = [\<lparr> tokenHash = ''a'', userId = 7, createdAt = 10,
                          expiresAt = 2000, usedAt = None, used = False \<rparr>],
       sessions = [\<lparr> sessionId = ''s'', session_userId = 7, session_createdAt = 10,
                     session_expiresAt = 1000, lastSeenAt = 20 \<rparr>] \<rparr>
   = (Inl QueryFailed,
      \<lparr> users = [7],
        oneTimeTokens = [],
        sessions = [\<lparr> sessionId = ''s'', session_userId = 7, session_createdAt = 10,
                     session_expiresAt = 1000, lastSeenAt = 20 \<rparr>] \<rparr>)"
  using sweep_stops_at_failure [of False False 3000000000
     "\<lparr> users = [7],
       oneTimeTokens = [\<lparr> tokenHash = ''a'', userId = 7, createdAt = 10,
                          expiresAt = 2000, usedAt = None, used = False \<rparr>],
       sessions = [\<lparr> sessionId = ''s'', session_userId = 7, session_createdAt = 10,
                     session_expiresAt = 1000, lastSeenAt = 20 \<rparr>] \<rparr>"]
  by simp

section \<open>Properties of concurrent redemption\<close>

lemma userId_markUsed: "userId (markUsed now r) = userId r"
  by (simp add: markUsed_def)

lemma used_markUsed: "used (markUsed now r)"
  by (simp add: markUsed_def)

lemma consume_step_match:
  assumes d: "distinct (map tokenHash (oneTimeTokens db))"
    and rin: "r \<in> set (oneTimeTokens db)" and c: "consumable h now r"
  shows "\<exists>db'. consume_step h now db = (Done (succeeded (userId r)), db')
            \<and> distinct (map tokenHash (oneTimeTokens db'))
            \<and> (\<exists>r'\<in>set (oneTimeTokens db'). tokenHash r' = h \<and> used r')"
proof -
  from update_consume_match [OF d rin c] obtain db'
    where u: "update_consume False h now db = Inr ([markUsed now r], db')"
      and k: "map tokenHash (oneTimeTokens db') = map tokenHash (oneTimeTokens db)"
      and m: "markUsed now r \<in> set (oneTimeTokens db')"
    by blast
  from c have "tokenHash r = h" by (simp add: consumable_def)
  then have hm: "tokenHash (markUsed now r) = h" by (simp add: tokenHash_markUsed)
  from u have "consume_step h now db = (Done (succeeded (userId r)), db')"
    by (simp add: consume_step_def userId_markUsed)
  moreover from d k have "distinct (map tokenHash (oneTimeTokens db'))" by simp
  moreover from m hm used_markUsed have "\<exists>r'\<in>set (oneTimeTokens db'). tokenHash r' = h \<and> used r'"
    by blast
  ultimately show ?thesis by blast
qed

lemma consume_step_blocked:
  assumes d: "distinct (map tokenHash (oneTimeTokens db))"
    and rin: "r' \<in> set (oneTimeTokens db)" and u: "used r'"
  shows "consume_step (tokenHash r') now db = (Diagnosing now, db)"
proof -
  from not_consumable_used [OF d rin, of now] u
  have "\<forall>x\<in>set (oneTimeTokens db). \<not> consumable (tokenHash r') now x" by simp
  from update_consume_no_match [OF this] show ?thesis
    by (simp add: consume_step_def)
qed

lemma diagnose_step_used:
  assumes d: "distinct (map tokenHash (oneTimeTokens db))"
    and rin: "r' \<in> set (oneTimeTokens db)" and u: "used r'"
  shows "diagnose_step (tokenHash r') now db = Done already_used"
  using select_by_hash_found [OF d rin] u
  by (simp add: diagnose_step_def diagnose_def already_used_def)

lemma step_fresh:
  assumes d: "distinct (map tokenHash (oneTimeTokens db0))"
    and rin: "r \<in> set (oneTimeTokens db0)" and rh: "tokenHash r = h" and ru: "used r = False"
    and inv: "inv_fresh db0 r s"
  shows "inv_fresh db0 r (step_call h i s) \<or> inv_consumed h r (step_call h i s)"
proof -
  obtain db cs where s: "s = (db, cs)" by (cases s)
  from inv s have db: "db = db0" and ne: "cs \<noteq> []"
    and pend: "\<forall>c\<in>set cs. \<exists>t. c = Pending t \<and> t < expiresAt r"
    by (simp_all add: inv_fresh_def)
  show ?thesis
  proof (cases "i < length cs")
    case False
    with s inv show ?thesis by (simp add: step_call_def)
  next
    case True
    then have "cs ! i \<in> set cs" by simp
    with pend obtain t where ci: "cs ! i = Pending t" and t: "t < expiresAt r" by blast
    from rh ru t have c: "consumable h t r" by (simp add: consumable_def)
    from consume_step_match [OF d rin c] obtain db'
      where cs': "consume_step h t db0 = (Done (succeeded (userId r)), db')"
        and d': "distinct (map tokenHash (oneTimeTokens db'))"
        and u': "\<exists>r'\<in>set (oneTimeTokens db'). tokenHash r' = h \<and> used r'"
      by blast
    from s db True ci cs'
    have st: "step_call h i s = (db', cs[i := Done (succeeded (userId r))])"
      by (simp add: step_call_def)
    have others: "\<forall>j<length cs. j \<noteq> i \<longrightarrow> (\<exists>t. cs[i := Done (succeeded (userId r))] ! j = Pending t)"
    proof (intro allI impI)
      fix j assume j: "j < length cs" and ji: "j \<noteq> i"
      then have "cs ! j \<in> set cs" by simp
      with pend obtain t' where "cs ! j = Pending t'" by blast
      with ji show "\<exists>t. cs[i := Done (succeeded (userId r))] ! j = Pending t" by simp
    qed
    have "inv_consumed h r (step_call h i s)"
      unfolding inv_consumed_def st fst_conv snd_conv
    proof (intro conjI)
      show "distinct (map tokenHash (oneTimeTokens db'))" by (rule d')
      show "\<exists>r'\<in>set (oneTimeTokens db'). tokenHash r' = h \<and> used r'" by (rule u')
      from True others
      show "\<exists>k<length (cs[i := Done (succeeded (userId r))]).
              cs[i := Done (succeeded (userId r))] ! k = Done (succeeded (userId r))
              \<and> (\<forall>ia<length (cs[i := Done (succeeded (userId r))]). ia \<noteq> k \<longrightarrow>
                    (\<exists>t. cs[i := Done (succeeded (userId r))] ! ia = Pending t)
                    \<or> (\<exists>t. cs[i := Done (succeeded (userId r))] ! ia = Diagnosing t)
                    \<or> cs[i := Done (succeeded (userId r))] ! ia = Done already_used)"
        by (intro exI [of _ i]) simp
    qed
    then show ?thesis ..
  qed
qed

lemma step_consumed:
  assumes inv: "inv_consumed h r s"
  shows "inv_consumed h r (step_call h i s)"
proof -
  obtain db cs where s: "s = (db, cs)" by (cases s)
  from inv s have d: "distinct (map tokenHash (oneTimeTokens db))"
    by (simp add: inv_consumed_def)
  from inv s obtain r' where rin: "r' \<in> set (oneTimeTokens db)" and rh: "tokenHash r' = h"
    and ru: "used r'"
    by (auto simp: inv_consumed_def)
  from inv s obtain k where k: "k < length cs" and ck: "cs ! k = Done (succeeded (userId r))"
    and rest: "\<forall>i<length cs. i \<noteq> k \<longrightarrow>
                  (\<exists>t. cs ! i = Pending t) \<or> (\<exists>t. cs ! i = Diagnosing t)
                  \<or> cs ! i = Done already_used"
    by (auto simp: inv_consumed_def)
  have keep: "inv_consumed h r (db, cs[i := c])"
    if "i \<noteq> k" "(\<exists>t. c = Pending t) \<or> (\<exists>t. c = Diagnosing t) \<or> c = Done already_used" for c
    unfolding inv_consumed_def fst_conv snd_conv
  proof (intro conjI)
    show "distinct (map tokenHash (oneTimeTokens db))" by (rule d)
    from rin rh ru show "\<exists>r'\<in>set (oneTimeTokens db). tokenHash r' = h \<and> used r'" by blast
    have "cs[i := c] ! k = Done (succeeded (userId r))"
      using that(1) ck by simp
    moreover have "\<forall>j<length (cs[i := c]). j \<noteq> k \<longrightarrow>
                    (\<exists>t. cs[i := c] ! j = Pending t) \<or> (\<exists>t. cs[i := c] ! j = Diagnosing t)
                    \<or> cs[i := c] ! j = Done already_used"
    proof (intro allI impI)
      fix j assume j: "j < length (cs[i := c])" and jk: "j \<noteq> k"
      show "(\<exists>t. cs[i := c] ! j = Pending t) \<or> (\<exists>t. cs[i := c] ! j = Diagnosing t)
                    \<or> cs[i := c] ! j = Done already_used"
      proof (cases "j = i")
        case True
        with j that(2) show ?thesis by simp
      next
        case False
        with j jk rest show ?thesis by simp
      qed
    qed
    ultimately show "\<exists>k<length (cs[i := c]).
              cs[i := c] ! k = Done (succeeded (userId r))
              \<and> (\<forall>ia<length (cs[i := c]). ia \<noteq> k \<longrightarrow>
                    (\<exists>t. cs[i := c] ! ia = Pending t)
                    \<or> (\<exists>t. cs[i := c] ! ia = Diagnosing t)
                    \<or> cs[i := c] ! ia = Done already_used)"
      using k by (intro exI [of _ k]) simp
  qed
  show ?thesis
  proof (cases "i < length cs")
    case False
    with s inv show ?thesis by (simp add: step_call_def)
  next
    case True
    show ?thesis
    proof (cases "cs ! i")
      case (Done res)
      with s True inv show ?thesis by (simp add: step_call_def)
    next
      case (Pending t)
      with ck have ik: "i \<noteq> k" by auto
      from consume_step_blocked [OF d rin ru, of t] rh
      have "consume_step h t db = (Diagnosing t, db)" by simp
      with s True Pending have "step_call h i s = (db, cs[i := Diagnosing t])"
        by (simp add: step_call_def)
      with keep [OF ik, of "Diagnosing t"] show ?thesis by simp
    next
      case (Diagnosing t)
      with ck have ik: "i \<noteq> k" by auto
      from diagnose_step_used [OF d rin ru, of t] rh
      have "diagnose_step h t db = Done already_used" by simp
      with s True Diagnosing have "step_call h i s = (db, cs[i := Done already_used])"
        by (simp add: step_call_def)
      with keep [OF ik, of "Done already_used"] show ?thesis by simp
    qed
  qed
qed

lemma run_schedule_inv:
  assumes d: "distinct (map tokenHash (oneTimeTokens db0))"
    and rin: "r \<in> set (oneTimeTokens db0)" and rh: "tokenHash r = h" and ru: "used r = False"
  shows "inv_fresh db0 r s \<or> inv_consumed h r s \<Longrightarrow>
         inv_fresh db0 r (run_schedule h schedule s) \<or> inv_consumed h r (run_schedule h schedule s)"
proof (induction schedule arbitrary: s)
  case Nil
  then show ?case by simp
next
  case (Cons i schedule)
  from Cons.prems have "inv_fresh db0 r (step_call h i s) \<or> inv_consumed h r (step_call h i s)"
    using step_fresh [OF d rin rh ru] step_consumed by blast
  from Cons.IH [OF this] show ?case by simp
qed

lemma filter_one:
  assumes k: "k < length xs" and pk: "P (xs ! k)"
    and others: "\<forall>i<length xs. i \<noteq> k \<longrightarrow> \<not> P (xs ! i)"
  shows "length (filter P xs) = 1"
proof -
  have before: "filter P (take k xs) = []"
  proof -
    have "\<forall>x\<in>set (take k xs). \<not> P x"
    proof
      fix x assume "x \<in> set (take k xs)"
      then obtain j where j: "j < length (take k xs)" and x: "x = take k xs ! j"
        by (auto simp: in_set_conv_nth)
      from j k have "j < k" "j < length xs" by simp_all
      with others x show "\<not> P x" by simp
    qed
    then show ?thesis by (simp add: filter_empty_conv)
  qed
  have after: "filter P (drop (Suc k) xs) = []"
  proof -
    have "\<forall>x\<in>set (drop (Suc k) xs). \<not> P x"
    proof
      fix x assume "x \<in> set (drop (Suc k) xs)"
      then obtain j where j: "j < length (drop (Suc k) xs)" and x: "x = drop (Suc k) xs ! j"
        by (auto simp: in_set_conv_nth)
      from j have "Suc k + j < length xs" by simp
      moreover have "Suc k + j \<noteq> k" by simp
      ultimately have "\<not> P (xs ! (Suc k + j))" using others by blast
      with x j show "\<not> P x" by simp
    qed
    then show ?thesis by (simp add: filter_empty_conv)
  qed
  from k have "xs = take k xs @ xs ! k # drop (Suc k) xs"
    by (rule id_take_nth_drop)
  then have "filter P xs = filter P (take k xs @ xs ! k # drop (Suc k) xs)" by simp
  with before after pk show ?thesis by simp
qed


lemma single_call_is_verifyAndConsumeToken:
  assumes "validateTokenFormat tok"
  shows "run_schedule (hashToken tok) [0, 0] (db, [Pending now])
           = (snd (verifyAndConsumeToken hashToken False False now tok db),
              [Done (fst (verifyAndConsumeToken hashToken False False now tok db))])"
proof (cases "filter (consumable (hashToken tok) now) (oneTimeTokens db)")
  case Nil
  with assms show ?thesis
    by (simp add: step_call_def consume_step_def diagnose_step_def verifyAndConsumeToken_def
        update_consume_def select_by_hash_def Let_def)
next
  case (Cons c rest)
  with assms show ?thesis
    by (simp add: step_call_def consume_step_def diagnose_step_def verifyAndConsumeToken_def
        update_consume_def select_by_hash_def Let_def)
qed

lemma length_step_call: "length (snd (step_call h i s)) = length (snd s)"
  by (cases s) (simp add: step_call_def split: call_state.splits prod.splits)

lemma length_run_schedule: "length (snd (run_schedule h schedule s)) = length (snd s)"
  by (induction schedule arbitrary: s) (simp_all add: length_step_call)

lemma rank_consume_step: "rank (fst (consume_step h now db)) \<le> 1"
  by (simp add: consume_step_def update_consume_def rank_def split: list.splits)

lemma rank_diagnose_step: "rank (diagnose_step h now db) = 0"
  by (simp add: diagnose_step_def select_by_hash_def rank_def)

lemma step_call_other: "j \<noteq> i \<Longrightarrow> snd (step_call h i s) ! j = snd s ! j"
  by (cases s) (simp add: step_call_def split: call_state.splits prod.splits)

lemma step_call_self:
  assumes "i < length (snd s)"
  shows "rank (snd (step_call h i s) ! i) \<le> rank (snd s ! i) - 1"
proof -
  obtain db cs where s: "s = (db, cs)" by (cases s)
  with assms have i: "i < length cs" by simp
  show ?thesis
  proof (cases "cs ! i")
    case (Pending t)
    obtain c db' where c: "consume_step h t db = (c, db')" by (cases "consume_step h t db")
    with rank_consume_step [of h t db] have "rank c \<le> 1" by simp
    with s i Pending c show ?thesis by (simp add: step_call_def rank_def)
  next
    case (Diagnosing t)
    with s i rank_diagnose_step [of h t db] show ?thesis by (simp add: step_call_def)
  next
    case (Done res)
    with s i show ?thesis by (simp add: step_call_def rank_def)
  qed
qed

lemma step_call_mono:
  assumes "j < length (snd s)"
  shows "rank (snd (step_call h i s) ! j) \<le> rank (snd s ! j)"
proof (cases "j = i")
  case True
  with step_call_self [of i s h] assms show ?thesis by simp
next
  case False
  then show ?thesis by (simp add: step_call_other)
qed

lemma run_schedule_mono:
  "j < length (snd s) \<Longrightarrow> rank (snd (run_schedule h schedule s) ! j) \<le> rank (snd s ! j)"
proof (induction schedule arbitrary: s)
  case Nil
  then show ?case by simp
next
  case (Cons i schedule)
  from Cons.prems have "j < length (snd (step_call h i s))" by (simp add: length_step_call)
  from Cons.IH [OF this] step_call_mono [OF Cons.prems, of h i] show ?case by simp
qed

lemma run_schedule_progress:
  "j < length (snd s) \<Longrightarrow> j \<in> set schedule \<Longrightarrow>
     rank (snd (run_schedule h schedule s) ! j) \<le> rank (snd s ! j) - 1"
proof (induction schedule arbitrary: s)
  case Nil
  then show ?case by simp
next
  case (Cons i schedule)
  from Cons.prems(1) have len: "j < length (snd (step_call h i s))"
    by (simp add: length_step_call)
  show ?case
  proof (cases "j = i")
    case True
    from run_schedule_mono [OF len, of h schedule] step_call_self [OF Cons.prems(1), of h] True
    show ?thesis by simp
  next
    case False
    with Cons.prems(2) have "j \<in> set schedule" by simp
    from Cons.IH [OF len this] False show ?thesis by (simp add: step_call_other)
  qed
qed

lemma run_schedule_append:
  "run_schedule h (xs @ ys) s = run_schedule h ys (run_schedule h xs s)"
  by (induction xs arbitrary: s) simp_all

lemma rank_le_2: "rank c \<le> 2"
  by (simp add: rank_def split: call_state.splits)

lemma finished_rank: "finished c \<longleftrightarrow> rank c = 0"
  by (simp add: finished_def rank_def split: call_state.splits)

lemma two_rounds_finish:
  "list_all finished
     (snd (run_schedule h ([0..<length (snd s)] @ [0..<length (snd s)]) s))"
proof -
  let ?n = "length (snd s)"
  let ?s1 = "run_schedule h [0..<?n] s"
  let ?s2 = "run_schedule h [0..<?n] ?s1"
  have len1: "length (snd ?s1) = ?n" by (rule length_run_schedule)
  have len2: "length (snd ?s2) = ?n" by (simp add: length_run_schedule)
  have "finished (snd ?s2 ! j)" if j: "j < ?n" for j
  proof -
    from j have mem: "j \<in> set [0..<?n]" by simp
    from run_schedule_progress [OF j mem, of h] rank_le_2 [of "snd s ! j"]
    have r1: "rank (snd ?s1 ! j) \<le> 1" by simp
    from j len1 have j1: "j < length (snd ?s1)" by simp
    from run_schedule_progress [OF j1 mem, of h] r1
    have "rank (snd ?s2 ! j) = 0" by simp
    then show ?thesis by (simp add: finished_rank)
  qed
  with len2 have "list_all finished (snd ?s2)"
    by (simp add: list_all_length)
  then show ?thesis by (simp add: run_schedule_append)
qed

lemma observed_success_simps:
  "observed_success (Done (succeeded uid))"
  "\<not> observed_success (Pending t)"
  "\<not> observed_success (Diagnosing t)"
  "\<not> observed_success (Done already_used)"
  by (simp_all add: observed_success_def succeeded_def already_used_def failure_def)

lemma finished_simps:
  "\<not> finished (Pending t)" "\<not> finished (Diagnosing t)"
  by (simp_all add: finished_def)

lemma inv_fresh_outcome:
  assumes "inv_fresh db0 r (db, calls)"
  shows "filter observed_success calls = [] \<and> \<not> list_all finished calls"
proof -
  from assms have ne: "calls \<noteq> []"
    and pend: "\<forall>c\<in>set calls. \<exists>t. c = Pending t \<and> t < expiresAt r"
    by (simp_all add: inv_fresh_def)
  from pend have "\<forall>c\<in>set calls. \<not> observed_success c"
    by (auto simp: observed_success_simps)
  then have none: "filter observed_success calls = []" by (simp add: filter_empty_conv)
  from ne obtain c where c: "c \<in> set calls" by (cases calls) auto
  with pend have "\<not> finished c" by (auto simp: finished_simps)
  with c have "\<not> list_all finished calls" by (auto simp: list_all_iff)
  with none show ?thesis by simp
qed

lemma inv_consumed_outcome:
  assumes "inv_consumed h r (db, calls)"
  shows "length (filter observed_success calls) = 1
       \<and> (\<forall>c\<in>set calls. observed_success c \<longrightarrow> c = Done (succeeded (userId r)))
       \<and> (list_all finished calls \<longrightarrow>
            (\<forall>c\<in>set calls. \<not> observed_success c \<longrightarrow> c = Done already_used))"
proof -
  from assms obtain k where k: "k < length calls"
    and ck: "calls ! k = Done (succeeded (userId r))"
    and rest: "\<forall>i<length calls. i \<noteq> k \<longrightarrow>
                  (\<exists>t. calls ! i = Pending t) \<or> (\<exists>t. calls ! i = Diagnosing t)
                  \<or> calls ! i = Done already_used"
    by (auto simp: inv_consumed_def)
  from rest have nos: "\<forall>i<length calls. i \<noteq> k \<longrightarrow> \<not> observed_success (calls ! i)"
    by (auto simp: observed_success_simps)
  from ck have "observed_success (calls ! k)" by (simp add: observed_success_simps)
  from filter_one [OF k this nos] have one: "length (filter observed_success calls) = 1" .
  have win: "\<forall>c\<in>set calls. observed_success c \<longrightarrow> c = Done (succeeded (userId r))"
  proof (intro ballI impI)
    fix c assume "c \<in> set calls" and s: "observed_success c"
    then obtain i where i: "i < length calls" and c: "c = calls ! i"
      by (auto simp: in_set_conv_nth)
    with nos s have "i = k" by blast
    with c ck show "c = Done (succeeded (userId r))" by simp
  qed
  have lose: "\<forall>c\<in>set calls. \<not> observed_success c \<longrightarrow> c = Done already_used"
    if fin: "list_all finished calls"
  proof (intro ballI impI)
    fix c assume cin: "c \<in> set calls" and s: "\<not> observed_success c"
    then obtain i where i: "i < length calls" and c: "c = calls ! i"
      by (auto simp: in_set_conv_nth)
    from s c ck have "i \<noteq> k" by (auto simp: observed_success_simps)
    with rest i c have "(\<exists>t. c = Pending t) \<or> (\<exists>t. c = Diagnosing t) \<or> c = Done already_used"
      by simp
    moreover from fin cin have "finished c" by (simp add: list_all_iff)
    ultimately show "c = Done already_used" by (auto simp: finished_simps)
  qed
  from one win lose show ?thesis by blast
qed

text \<open>
  C1: the table holds one row for the digest, unused, and \<open>N \<ge> 1\<close> calls of
  \<open>verifyAndConsumeToken\<close> on that digest run at once, each with its own \<open>now\<close> before
  the row's expiry. Whatever the interleaving of their atomic statements, at most one call
  has observed success at any moment; and once all calls are done, exactly one has
  observed success (with the row's user) and every other call has failed with
  \<open>ALREADY_USED\<close>. The calls do all finish: two rounds over the calls are a schedule that
  completes them.
\<close>

theorem concurrent_redeem_exactly_one:
  assumes keys: "distinct (map tokenHash (oneTimeTokens db0))"
    and row: "r \<in> set (oneTimeTokens db0)" "tokenHash r = h"
    and unused: "used r = False"
    and unexpired: "\<forall>now\<in>set nows. now < expiresAt r"
    and some: "nows \<noteq> []"
    and run: "run_schedule h schedule (db0, map Pending nows) = (db, calls)"
  shows "length calls = length nows
       \<and> length (filter observed_success calls) \<le> 1
       \<and> (list_all finished calls \<longrightarrow>
            length (filter observed_success calls) = 1
            \<and> (\<forall>c\<in>set calls. observed_success c \<longrightarrow> c = Done (succeeded (userId r)))
            \<and> (\<forall>c\<in>set calls. \<not> observed_success c \<longrightarrow>
                  c = Done (failure ''ALREADY_USED'' ''Token has already been used'')))
       \<and> list_all finished (snd (run_schedule h ([0..<length nows] @ [0..<length nows])
            (db0, map Pending nows)))"
proof -
  from unexpired some have "inv_fresh db0 r (db0, map Pending nows)"
    by (auto simp: inv_fresh_def)
  then have "inv_fresh db0 r (db0, map Pending nows) \<or> inv_consumed h r (db0, map Pending nows)" ..
  from run_schedule_inv [OF keys row unused this, of schedule] run
  have inv: "inv_fresh db0 r (db, calls) \<or> inv_consumed h r (db, calls)" by simp
  from length_run_schedule [of h schedule "(db0, map Pending nows)"] run
  have len: "length calls = length nows" by simp
  from inv have count: "length (filter observed_success calls) \<le> 1"
    using inv_fresh_outcome inv_consumed_outcome by fastforce
  have final: "length (filter observed_success calls) = 1
            \<and> (\<forall>c\<in>set calls. observed_success c \<longrightarrow> c = Done (succeeded (userId r)))
            \<and> (\<forall>c\<in>set calls. \<not> observed_success c \<longrightarrow>
                  c = Done (failure ''ALREADY_USED'' ''Token has already been used''))"
    if fin: "list_all finished calls"
  proof -
    from inv fin inv_fresh_outcome have "inv_consumed h r (db, calls)" by blast
    from inv_consumed_outcome [OF this] fin show ?thesis
      by (simp add: already_used_def)
  qed
  from two_rounds_finish [of h "(db0, map Pending nows)"]
  have complete: "list_all finished (snd (run_schedule h ([0..<length nows] @ [0..<length nows])
            (db0, map Pending nows)))"
    by simp
  from len count final complete show ?thesis by blast
qed

theorem concurrent_redeem_exactly_one_witness:
  "distinct (map tokenHash
      [\<lparr> tokenHash = toy_digest ''AbC123dEf456GhI7'', userId = 7,
         createdAt = 1000, expiresAt = 5000, usedAt = None, used = False \<rparr>])
   \<and> (1500 :: int) < 5000 \<and> (1501 :: int) < 5000 \<and> (1502 :: int) < 5000
   \<and> run_schedule (toy_digest ''AbC123dEf456GhI7'') [1, 0, 2, 2, 0, 1]
        (\<lparr> users = [7],
           oneTimeTokens = [\<lparr> tokenHash = toy_digest ''AbC123dEf456GhI7'', userId = 7,
              createdAt = 1000, expiresAt = 5000, usedAt = None, used = False \<rparr>],
           sessions = [] \<rparr>,
         map Pending [1500, 1501, 1502])
      = (\<lparr> users = [7],
           oneTimeTokens = [\<lparr> tokenHash = toy_digest ''AbC123dEf456GhI7'', userId = 7,
              createdAt = 1000, expiresAt = 5000, usedAt = Some 1501, used = True \<rparr>],
           sessions = [] \<rparr>,
         [Done (failure ''ALREADY_USED'' ''Token has already been used''),
          Done (succeeded 7),
          Done (failure ''ALREADY_USED'' ''Token has already been used'')])
   \<and> list_all finished
        [Done (failure ''ALREADY_USED'' ''Token has already been used''),
         Done (succeeded 7),
         Done (failure ''ALREADY_USED'' ''Token has already been used'')]
   \<and> length (filter observed_success
        [Done (failure ''ALREADY_USED'' ''Token has already been used''),
         Done (succeeded 7),
         Done (failure ''ALREADY_USED'' ''Token has already been used'')]) = 1"
proof -
  let ?r = "\<lparr> tokenHash = toy_digest ''AbC123dEf456GhI7'', userId = 7,
              createdAt = 1000, expiresAt = 5000, usedAt = None, used = False \<rparr>"
  let ?initial = "\<lparr> users = [7], oneTimeTokens = [?r], sessions = [] \<rparr>"
  let ?final = "\<lparr> users = [7],
           oneTimeTokens = [\<lparr> tokenHash = toy_digest ''AbC123dEf456GhI7'', userId = 7,
              createdAt = 1000, expiresAt = 5000, usedAt = Some 1501, used = True \<rparr>],
           sessions = [] \<rparr>"
  let ?calls = "[Done (failure ''ALREADY_USED'' ''Token has already been used''),
         Done (succeeded 7),
         Done (failure ''ALREADY_USED'' ''Token has already been used'')]"
  have h1: "distinct (map tokenHash (oneTimeTokens ?initial))" by simp
  have h2: "?r \<in> set (oneTimeTokens ?initial)" by simp
  have h3: "tokenHash ?r = toy_digest ''AbC123dEf456GhI7''" by simp
  have h4: "used ?r = False" by simp
  have h5: "\<forall>now\<in>set [1500, 1501, 1502]. now < expiresAt ?r" by simp
  have h6: "[1500, 1501, 1502 :: int] \<noteq> []" by simp
  have h7: "run_schedule (toy_digest ''AbC123dEf456GhI7'') [1, 0, 2, 2, 0, 1]
              (?initial, map Pending [1500, 1501, 1502]) = (?final, ?calls)"
    by (simp add: step_call_def consume_step_def diagnose_step_def update_consume_def
        select_by_hash_def consumable_def markUsed_def diagnose_def)
  have fin: "list_all finished ?calls" by (simp add: finished_def)
  from concurrent_redeem_exactly_one [OF h1 h2 h3 h4 h5 h6 h7] fin
  have "length (filter observed_success ?calls) = 1" by blast
  with h1 h5 h7 fin show ?thesis by simp
qed

section \<open>The primary key and the counts\<close>

text \<open>
  The theorems about a stored row assume that no two rows of the token table share a
  hash. The operations keep it so: the insert refuses a hash that is present, the update
  changes no hash, and the sweep only removes rows.
\<close>

lemma storeToken_keeps_keys:
  assumes "distinct (map tokenHash (oneTimeTokens db))"
  shows "distinct (map tokenHash (oneTimeTokens (snd (storeToken fault dbNow h uid expires db))))"
  using assms by (simp add: storeToken_def insert_token_def)

lemma update_consume_keeps_keys:
  assumes "update_consume fault h now db = Inr (rows, db')"
  shows "map tokenHash (oneTimeTokens db') = map tokenHash (oneTimeTokens db)"
  using assms
  by (auto simp: update_consume_def list_eq_iff_nth_eq tokenHash_markUsed split: if_splits)

lemma verifyAndConsumeToken_keeps_keys:
  "map tokenHash (oneTimeTokens (snd (verifyAndConsumeToken hashToken fu fs now tok db)))
     = map tokenHash (oneTimeTokens db)"
proof (cases "update_consume fu (hashToken tok) now db")
  case (Inl e)
  then show ?thesis by (simp add: verifyAndConsumeToken_def Let_def)
next
  case (Inr p)
  obtain rows db' where p: "p = (rows, db')" by (cases p)
  with Inr update_consume_keeps_keys [of fu "hashToken tok" now db rows db']
  have "map tokenHash (oneTimeTokens db') = map tokenHash (oneTimeTokens db)" by simp
  with Inr p show ?thesis
    by (simp add: verifyAndConsumeToken_def Let_def split: list.splits sum.splits)
qed

lemma cleanup_keeps_keys:
  assumes "distinct (map tokenHash (oneTimeTokens db))"
  shows "distinct (map tokenHash (oneTimeTokens
           (snd (cleanupExpiredTokensAndSessions f1 f2 f3 now db))))"
  using assms
  by (simp add: cleanupExpiredTokensAndSessions_def delete_tokens_def delete_sessions_def
      Let_def distinct_map_filter)

text \<open>
  The counts survive their way through text: \<open>parseInt10\<close> reads back the number that
  \<open>count_text\<close> wrote, so \<open>getTokenStats\<close> returns the four counts of the user's rows.
\<close>

lemma digits_value_snoc: "digits_value (ds @ [c]) = 10 * digits_value ds + ((of_char c :: nat) - 48)"
  by (simp add: digits_value_def)

lemma digit_char_code: "d < 10 \<Longrightarrow> (of_char (digit_char d) :: nat) = 48 + d"
proof -
  assume "d < 10"
  then have "d \<in> {0, 1, 2, 3, 4, 5, 6, 7, 8, 9}" by auto
  then show ?thesis by (auto simp: digit_char_def)
qed

lemma digit_char_isDecimalDigit: "d < 10 \<Longrightarrow> isDecimalDigit (digit_char d)"
  by (simp add: isDecimalDigit_def digit_char_code)

lemma count_text_digits:
  "count_text n \<noteq> [] \<and> (\<forall>c\<in>set (count_text n). isDecimalDigit c)
   \<and> digits_value (count_text n) = n"
proof (induction n rule: count_text.induct)
  case (1 n)
  show ?case
  proof (cases "n < 10")
    case True
    then show ?thesis
      by (simp add: count_text.simps [of n] digit_char_isDecimalDigit digits_value_def
          digit_char_code)
  next
    case False
    with "1.IH" have ih: "count_text (n div 10) \<noteq> []"
      "\<forall>c\<in>set (count_text (n div 10)). isDecimalDigit c"
      "digits_value (count_text (n div 10)) = n div 10"
      by simp_all
    have m: "n mod 10 < 10" by simp
    from False ih m show ?thesis
      by (simp add: count_text.simps [of n] digit_char_isDecimalDigit digits_value_snoc
          digit_char_code)
  qed
qed

lemma isDecimalDigit_not_space: "isDecimalDigit c \<Longrightarrow> \<not> isWhiteSpace c \<and> c \<noteq> CHR ''-'' \<and> c \<noteq> CHR ''+''"
  by (auto simp: isDecimalDigit_def isWhiteSpace_def)

lemma parseInt10_count_text: "parseInt10 (count_text n) = Some (int n)"
proof -
  from count_text_digits [of n] obtain c rest where cr: "count_text n = c # rest"
    and dig: "\<forall>x\<in>set (c # rest). isDecimalDigit x"
    and val: "digits_value (c # rest) = n"
    by (cases "count_text n") auto
  from dig have c: "isDecimalDigit c" by simp
  from isDecimalDigit_not_space [OF c]
  have ns: "\<not> isWhiteSpace c" and nm: "c \<noteq> CHR ''-''" and np: "c \<noteq> CHR ''+''" by simp_all
  from dig have tw: "takeWhile isDecimalDigit (c # rest) = c # rest"
    by (simp add: takeWhile_eq_all_conv)
  from ns have dw: "dropWhile isWhiteSpace (c # rest) = c # rest" by simp
  show ?thesis
    unfolding parseInt10_def cr dw Let_def using nm np tw val by simp
qed

lemma getTokenStats_counts:
  "getTokenStats False uid currentTimestamp db =
     \<lparr> total = Some (int (length (filter (\<lambda>r. userId r = uid) (oneTimeTokens db)))),
       used_count = Some (int (length (filter (\<lambda>r. used r = True)
          (filter (\<lambda>r. userId r = uid) (oneTimeTokens db))))),
       expired = Some (int (length (filter (\<lambda>r. expiresAt r \<le> currentTimestamp \<and> used r = False)
          (filter (\<lambda>r. userId r = uid) (oneTimeTokens db))))),
       active = Some (int (length (filter (\<lambda>r. expiresAt r > currentTimestamp \<and> used r = False)
          (filter (\<lambda>r. userId r = uid) (oneTimeTokens db))))) \<rparr>"
  by (simp add: getTokenStats_def stats_query_def Let_def parseInt10_count_text)

end
